theory Spec2Isabelle
  imports Complex_Main "HOL-Library.AList"
begin

section \<open>The Bologna lexer and parser (bologna-cmake.cpp)\<close>

text \<open>
  The program keeps its lexer and parser state in file-level variables
  (\<^verbatim>\<open>LastChar\<close>, \<^verbatim>\<open>IdentifierStr\<close>, \<^verbatim>\<open>NumVal\<close>, \<^verbatim>\<open>CurTok\<close>,
  \<^verbatim>\<open>BinopPrecedence\<close>), reads standard input with \<^verbatim>\<open>getchar\<close> and writes its
  diagnostics to standard error.  All of it is gathered in one record that every
  function takes and returns.

  Characters are bytes.  \<^verbatim>\<open>getchar\<close> returns an \<^verbatim>\<open>int\<close>: the byte read (0..255) or
  \<^verbatim>\<open>EOF\<close>; tokens are \<^verbatim>\<open>int\<close>s as well: a negative member of \<^verbatim>\<open>enum Token\<close> or the
  byte of an unknown character.  The character constants of the source appear as their
  codes: \<^verbatim>\<open>'\n'\<close> 10, \<^verbatim>\<open>'\r'\<close> 13, \<^verbatim>\<open>' '\<close> 32, \<^verbatim>\<open>'#'\<close> 35, \<^verbatim>\<open>'('\<close> 40, \<^verbatim>\<open>')'\<close> 41,
  \<^verbatim>\<open>','\<close> 44, \<^verbatim>\<open>'.'\<close> 46 and \<^verbatim>\<open>';'\<close> 59.
\<close>

subsection \<open>Tokens and character classes\<close>

abbreviation EOF :: int where "EOF \<equiv> - 1"

abbreviation tok_eof :: int where "tok_eof \<equiv> - 1"
abbreviation tok_def :: int where "tok_def \<equiv> - 2"
abbreviation tok_extern :: int where "tok_extern \<equiv> - 3"
abbreviation tok_identifier :: int where "tok_identifier \<equiv> - 4"
abbreviation tok_number :: int where "tok_number \<equiv> - 5"

text \<open>The \<^verbatim>\<open><cctype>\<close> predicates, in the "C" locale; all of them are false at \<^verbatim>\<open>EOF\<close>.\<close>

definition isspace :: "int \<Rightarrow> bool" where
  "isspace c \<longleftrightarrow> c = 32 \<or> (9 \<le> c \<and> c \<le> 13)"

definition isdigit :: "int \<Rightarrow> bool" where
  "isdigit c \<longleftrightarrow> 48 \<le> c \<and> c \<le> 57"

definition isalpha :: "int \<Rightarrow> bool" where
  "isalpha c \<longleftrightarrow> (65 \<le> c \<and> c \<le> 90) \<or> (97 \<le> c \<and> c \<le> 122)"

definition isalnum :: "int \<Rightarrow> bool" where
  "isalnum c \<longleftrightarrow> isalpha c \<or> isdigit c"

definition isascii :: "int \<Rightarrow> bool" where
  "isascii c \<longleftrightarrow> 0 \<le> c \<and> c \<le> 127"

subsection \<open>Program state\<close>

record state =
  stdin :: string
  LastChar :: int
  IdentifierStr :: string
  NumVal :: rat
  CurTok :: int
  BinopPrecedence :: "(char \<times> int) list"
  stderr :: "string list"

text \<open>
  \<^verbatim>\<open>getchar()\<close>: the next byte of standard input, or \<^verbatim>\<open>EOF\<close> once it is exhausted.
  \<open>read_char\<close> is the statement \<^verbatim>\<open>LastChar = getchar();\<close>.
\<close>

definition getchar :: "state \<Rightarrow> int \<times> state" where
  "getchar s = (case stdin s of [] \<Rightarrow> (EOF, s) | c # cs \<Rightarrow> (of_char c, s\<lparr>stdin := cs\<rparr>))"

definition read_char :: "state \<Rightarrow> state" where
  "read_char s = (case getchar s of (c, s') \<Rightarrow> s'\<lparr>LastChar := c\<rparr>)"

text \<open>
  \<^verbatim>\<open>strtod(NumStr.c_str(), nullptr)\<close> on the strings \<^verbatim>\<open>gettok\<close> builds, which hold
  digits and \<^verbatim>\<open>'.'\<close> only: the longest prefix of the form digits, optional point,
  digits, with at least one digit, read in base ten; 0 when there is no such prefix.
  The value is kept exact; the rounding to the nearest \<^verbatim>\<open>double\<close> is not modelled.
  The two agree on the integers up to \<open>2 ^ 53\<close> and on the fractions with a power of
  two as denominator that a \<^verbatim>\<open>double\<close> holds; they differ on other fractions (0.1), on
  larger integers and beyond the range of \<^verbatim>\<open>double\<close>.  The statements below use the
  literals 1, 2, 3 and 4 only.
\<close>

definition is_digit_char :: "char \<Rightarrow> bool" where
  "is_digit_char c \<longleftrightarrow> isdigit (of_char c)"

fun decimal :: "nat \<Rightarrow> string \<Rightarrow> nat" where
  "decimal acc [] = acc"
| "decimal acc (c # cs) = decimal (10 * acc + (of_char c - 48)) cs"

definition strtod :: "string \<Rightarrow> rat" where
  "strtod str =
     (let ip = takeWhile is_digit_char str;
          rest = dropWhile is_digit_char str;
          fp = (case rest of [] \<Rightarrow> [] | c # cs \<Rightarrow>
                  if c = CHR ''.'' then takeWhile is_digit_char cs else [])
      in if ip = [] \<and> fp = [] then 0
         else of_nat (decimal 0 ip) + of_nat (decimal 0 fp) / of_nat (10 ^ length fp))"

subsection \<open>The lexer\<close>

text \<open>\<^verbatim>\<open>while (isspace(LastChar)) LastChar = getchar();\<close>\<close>

function skip_whitespace :: "state \<Rightarrow> state" where
  "skip_whitespace s = (if isspace (LastChar s) then skip_whitespace (read_char s) else s)"
  by pat_completeness auto
termination
  by (relation "measure (\<lambda>s. length (stdin s) + (if LastChar s = EOF then 0 else 1))")
     (auto simp: read_char_def getchar_def isspace_def split: list.splits)

declare skip_whitespace.simps [simp del]

text \<open>\<^verbatim>\<open>while (isalnum((LastChar = getchar()))) IdentifierStr += LastChar;\<close>\<close>

function read_identifier :: "state \<Rightarrow> state" where
  "read_identifier s =
     (let s' = read_char s
      in if isalnum (LastChar s')
         then read_identifier (s'\<lparr>IdentifierStr := IdentifierStr s' @ [char_of (LastChar s')]\<rparr>)
         else s')"
  by pat_completeness auto
termination
  by (relation "measure (\<lambda>s. length (stdin s))")
     (auto simp: read_char_def getchar_def isalnum_def isalpha_def isdigit_def split: list.splits)

declare read_identifier.simps [simp del]

text \<open>
  \<^verbatim>\<open>do { NumStr += LastChar; LastChar = getchar(); }
  while (isdigit(LastChar) || LastChar == '.');\<close>
\<close>

function read_number :: "string \<Rightarrow> state \<Rightarrow> string \<times> state" where
  "read_number NumStr s =
     (let NumStr' = NumStr @ [char_of (LastChar s)];
          s' = read_char s
      in if isdigit (LastChar s') \<or> LastChar s' = 46
         then read_number NumStr' s'
         else (NumStr', s'))"
  by pat_completeness auto
termination
  by (relation "measure (\<lambda>(n, s). length (stdin s))")
     (auto simp: read_char_def getchar_def isdigit_def split: list.splits)

declare read_number.simps [simp del]

text \<open>
  \<^verbatim>\<open>do LastChar = getchar();
  while (LastChar != EOF && LastChar != '\n' && LastChar != '\r');\<close>
\<close>

function skip_comment :: "state \<Rightarrow> state" where
  "skip_comment s =
     (let s' = read_char s
      in if LastChar s' \<noteq> EOF \<and> LastChar s' \<noteq> 10 \<and> LastChar s' \<noteq> 13
         then skip_comment s'
         else s')"
  by pat_completeness auto
termination
  by (relation "measure (\<lambda>s. length (stdin s))")
     (auto simp: read_char_def getchar_def split: list.splits)

declare skip_comment.simps [simp del]

text \<open>
  The number of characters the lexer has not yet consumed: those left on standard input
  and the one held in \<^verbatim>\<open>LastChar\<close>.
\<close>

definition remaining :: "state \<Rightarrow> nat" where
  "remaining s = length (stdin s) + (if LastChar s = EOF then 0 else 1)"

lemma remaining_read_char:
  "LastChar s \<noteq> EOF \<Longrightarrow> remaining (read_char s) < remaining s"
  by (auto simp: remaining_def read_char_def getchar_def split: list.splits)

lemma remaining_skip_whitespace: "remaining (skip_whitespace s) \<le> remaining s"
proof (induction s rule: skip_whitespace.induct)
  case (1 s)
  show ?case
  proof (cases "isspace (LastChar s)")
    case True
    then have "LastChar s \<noteq> EOF" by (auto simp: isspace_def)
    then have "remaining (read_char s) < remaining s" by (rule remaining_read_char)
    with "1" True show ?thesis by (subst skip_whitespace.simps) simp
  next
    case False
    then show ?thesis by (subst skip_whitespace.simps) simp
  qed
qed

lemma remaining_skip_comment:
  "LastChar s \<noteq> EOF \<Longrightarrow> remaining (skip_comment s) < remaining s"
proof (induction s rule: skip_comment.induct)
  case (1 s)
  let ?s' = "read_char s"
  have lt: "remaining ?s' < remaining s" using "1.prems" by (rule remaining_read_char)
  show ?case
  proof (cases "LastChar ?s' \<noteq> EOF \<and> LastChar ?s' \<noteq> 10 \<and> LastChar ?s' \<noteq> 13")
    case True
    with "1.IH" [of ?s'] have "remaining (skip_comment ?s') < remaining ?s'" by simp
    with lt True show ?thesis by (subst skip_comment.simps) (simp add: Let_def)
  next
    case False
    with lt show ?thesis by (subst skip_comment.simps) (auto simp: Let_def)
  qed
qed

text \<open>\<^verbatim>\<open>gettok\<close>: the next token from standard input.\<close>

function gettok :: "state \<Rightarrow> int \<times> state" where
  "gettok s0 =
     (let s = skip_whitespace s0
      in if isalpha (LastChar s) then
           (let s1 = read_identifier (s\<lparr>IdentifierStr := [char_of (LastChar s)]\<rparr>)
            in if IdentifierStr s1 = ''def'' then (tok_def, s1)
               else if IdentifierStr s1 = ''extern'' then (tok_extern, s1)
               else (tok_identifier, s1))
         else if isdigit (LastChar s) \<or> LastChar s = 46 then
           (case read_number [] s of (NumStr, s1) \<Rightarrow>
              (tok_number, s1\<lparr>NumVal := strtod NumStr\<rparr>))
         else if LastChar s = 35 \<and> LastChar (skip_comment s) \<noteq> EOF then
           gettok (skip_comment s)
         else
           (let s1 = (if LastChar s = 35 then skip_comment s else s)
            in if LastChar s1 = EOF then (tok_eof, s1)
               else (LastChar s1, read_char s1)))"
  by pat_completeness auto
termination
proof (relation "measure remaining")
  show "wf (measure remaining)" by simp
next
  fix s0 s
  assume s: "s = skip_whitespace s0"
    and c: "LastChar s = 35 \<and> LastChar (skip_comment s) \<noteq> EOF"
  have "remaining (skip_comment s) < remaining s"
    using c by (intro remaining_skip_comment) simp
  also have "remaining s \<le> remaining s0"
    unfolding s by (rule remaining_skip_whitespace)
  finally show "(skip_comment s, s0) \<in> measure remaining" by simp
qed

declare gettok.simps [simp del]


lemma remaining_read_identifier:
  "LastChar s \<noteq> EOF \<Longrightarrow> remaining (read_identifier s) < remaining s"
proof (induction s rule: read_identifier.induct)
  case (1 s)
  let ?s' = "read_char s"
  let ?s'' = "?s'\<lparr>IdentifierStr := IdentifierStr ?s' @ [char_of (LastChar ?s')]\<rparr>"
  have lt: "remaining ?s' < remaining s" using "1.prems" by (rule remaining_read_char)
  show ?case
  proof (cases "isalnum (LastChar ?s')")
    case True
    then have "LastChar ?s'' \<noteq> EOF"
      by (auto simp: isalnum_def isalpha_def isdigit_def)
    with "1.IH" [of ?s'] True have "remaining (read_identifier ?s'') < remaining ?s''"
      by simp
    moreover have "remaining ?s'' = remaining ?s'" by (simp add: remaining_def)
    ultimately show ?thesis
      using lt True by (subst read_identifier.simps) (simp add: Let_def)
  next
    case False
    with lt show ?thesis by (subst read_identifier.simps) (auto simp: Let_def)
  qed
qed

lemma remaining_read_number:
  "LastChar s \<noteq> EOF \<Longrightarrow> remaining (snd (read_number n s)) < remaining s"
proof (induction n s rule: read_number.induct)
  case (1 NumStr s)
  let ?n' = "NumStr @ [char_of (LastChar s)]"
  let ?s' = "read_char s"
  have lt: "remaining ?s' < remaining s" using "1.prems" by (rule remaining_read_char)
  show ?case
  proof (cases "isdigit (LastChar ?s') \<or> LastChar ?s' = 46")
    case True
    then have "LastChar ?s' \<noteq> EOF" by (auto simp: isdigit_def)
    with "1.IH" [of ?n' ?s'] True have "remaining (snd (read_number ?n' ?s')) < remaining ?s'"
      by simp
    with lt True show ?thesis by (subst read_number.simps) (simp add: Let_def)
  next
    case False
    with lt show ?thesis by (subst read_number.simps) (auto simp: Let_def)
  qed
qed

text \<open>
  \<^verbatim>\<open>gettok\<close> never gives characters back, and every token other than \<^verbatim>\<open>tok_eof\<close> costs at
  least one character.
\<close>

lemma remaining_gettok:
  "remaining (snd (gettok s0)) \<le> remaining s0
   \<and> (fst (gettok s0) \<noteq> tok_eof \<longrightarrow> remaining (snd (gettok s0)) < remaining s0)"
proof (induction s0 rule: gettok.induct)
  case (1 s0)
  define s where "s = skip_whitespace s0"
  have le: "remaining s \<le> remaining s0"
    unfolding s_def by (rule remaining_skip_whitespace)
  consider (ident) "isalpha (LastChar s)"
    | (number) "\<not> isalpha (LastChar s)" "isdigit (LastChar s) \<or> LastChar s = 46"
    | (comment) "\<not> isalpha (LastChar s)" "\<not> (isdigit (LastChar s) \<or> LastChar s = 46)"
        "LastChar s = 35 \<and> LastChar (skip_comment s) \<noteq> EOF"
    | (rest) "\<not> isalpha (LastChar s)" "\<not> (isdigit (LastChar s) \<or> LastChar s = 46)"
        "\<not> (LastChar s = 35 \<and> LastChar (skip_comment s) \<noteq> EOF)"
    by blast
  then show ?case
  proof cases
    case ident
    let ?s1 = "read_identifier (s\<lparr>IdentifierStr := [char_of (LastChar s)]\<rparr>)"
    from ident have "LastChar (s\<lparr>IdentifierStr := [char_of (LastChar s)]\<rparr>) \<noteq> EOF"
      by (auto simp: isalpha_def)
    then have "remaining ?s1 < remaining (s\<lparr>IdentifierStr := [char_of (LastChar s)]\<rparr>)"
      by (rule remaining_read_identifier)
    then have "remaining ?s1 < remaining s0" using le by (simp add: remaining_def)
    moreover have "gettok s0 =
        (if IdentifierStr ?s1 = ''def'' then (tok_def, ?s1)
         else if IdentifierStr ?s1 = ''extern'' then (tok_extern, ?s1)
         else (tok_identifier, ?s1))"
      using ident by (subst gettok.simps) (simp add: Let_def s_def [symmetric])
    ultimately show ?thesis by simp
  next
    case number
    obtain NumStr s1 where rn: "read_number [] s = (NumStr, s1)" by (cases "read_number [] s")
    from number have "LastChar s \<noteq> EOF" by (auto simp: isdigit_def)
    then have "remaining (snd (read_number [] s)) < remaining s"
      by (rule remaining_read_number)
    then have "remaining (s1\<lparr>NumVal := strtod NumStr\<rparr>) < remaining s0"
      using le rn by (simp add: remaining_def)
    moreover have "gettok s0 = (tok_number, s1\<lparr>NumVal := strtod NumStr\<rparr>)"
      using number rn by (subst gettok.simps) (simp add: Let_def s_def [symmetric])
    ultimately show ?thesis by simp
  next
    case comment
    have eq: "gettok s0 = gettok (skip_comment s)"
      using comment by (subst gettok.simps) (simp add: Let_def s_def [symmetric])
    have "remaining (skip_comment s) < remaining s"
      using comment by (intro remaining_skip_comment) simp
    moreover have "remaining (snd (gettok (skip_comment s))) \<le> remaining (skip_comment s)"
      using "1.IH" [of s] comment by (simp add: s_def)
    ultimately show ?thesis using le unfolding eq by simp
  next
    case rest
    define s1 where "s1 = (if LastChar s = 35 then skip_comment s else s)"
    have le1: "remaining s1 \<le> remaining s"
      using remaining_skip_comment [of s] by (auto simp: s1_def)
    have eq: "gettok s0 = (if LastChar s1 = EOF then (tok_eof, s1) else (LastChar s1, read_char s1))"
      using rest by (subst gettok.simps) (auto simp: Let_def s_def [symmetric] s1_def)
    show ?thesis
    proof (cases "LastChar s1 = EOF")
      case True
      then show ?thesis using le le1 unfolding eq by simp
    next
      case False
      then have "remaining (read_char s1) < remaining s1" by (rule remaining_read_char)
      then show ?thesis using False le le1 unfolding eq by simp
    qed
  qed
qed

subsection \<open>Abstract syntax tree\<close>

text \<open>
  The class hierarchy under \<^verbatim>\<open>ExprAST\<close> is closed, so it is one datatype.  A
  \<^verbatim>\<open>unique_ptr\<close> that may be \<^verbatim>\<open>nullptr\<close> is an \<open>option\<close>.
\<close>

datatype ExprAST =
    NumberExprAST rat
  | VariableExprAST string
  | BinaryExprAST char ExprAST ExprAST
  | CallExprAST string "ExprAST list"

datatype PrototypeAST = PrototypeAST string "string list"

datatype FunctionAST = FunctionAST PrototypeAST ExprAST

subsection \<open>Parser\<close>

text \<open>\<^verbatim>\<open>static int getNextToken() { return CurTok = gettok(); }\<close>\<close>

definition getNextToken :: "state \<Rightarrow> int \<times> state" where
  "getNextToken s = (case gettok s of (t, s') \<Rightarrow> (t, s'\<lparr>CurTok := t\<rparr>))"

text \<open>
  \<^verbatim>\<open>std::map<char, int>\<close> as an association list.  \<open>map_index\<close> is \<^verbatim>\<open>operator[]\<close> used
  as a read: a key that is absent is inserted with the value 0.  \<open>map_assign\<close> is
  \<^verbatim>\<open>m[k] = v\<close>.
\<close>

definition map_index :: "(char \<times> int) list \<Rightarrow> char \<Rightarrow> int \<times> (char \<times> int) list" where
  "map_index m k = (case map_of m k of Some v \<Rightarrow> (v, m) | None \<Rightarrow> (0, m @ [(k, 0)]))"

definition map_assign :: "(char \<times> int) list \<Rightarrow> char \<Rightarrow> int \<Rightarrow> (char \<times> int) list" where
  "map_assign m k v = AList.update k v m"

definition GetTokPrecedence :: "state \<Rightarrow> int \<times> state" where
  "GetTokPrecedence s =
     (if \<not> isascii (CurTok s) then (- 1, s)
      else case map_index (BinopPrecedence s) (char_of (CurTok s)) of (TokPrec, m) \<Rightarrow>
             (if TokPrec \<le> 0 then (- 1, s\<lparr>BinopPrecedence := m\<rparr>)
              else (TokPrec, s\<lparr>BinopPrecedence := m\<rparr>)))"

text \<open>\<^verbatim>\<open>fprintf(stderr, ...)\<close> appends one piece of text to the error stream.\<close>

definition fprintf_stderr :: "string \<Rightarrow> state \<Rightarrow> state" where
  "fprintf_stderr str s = s\<lparr>stderr := stderr s @ [str]\<rparr>"

definition LogError :: "string \<Rightarrow> state \<Rightarrow> ExprAST option \<times> state" where
  "LogError Str s = (None, fprintf_stderr (''Error: '' @ Str @ [CHR 0x0A]) s)"

definition LogErrorP :: "string \<Rightarrow> state \<Rightarrow> PrototypeAST option \<times> state" where
  "LogErrorP Str s = (case LogError Str s of (_, s') \<Rightarrow> (None, s'))"

text \<open>The messages that contain a single quote.\<close>

definition msg_expected_rparen :: string where
  "msg_expected_rparen = ''expected '' @ [CHR 0x27, CHR '')'', CHR 0x27]"

definition msg_expected_rparen_or_comma :: string where
  "msg_expected_rparen_or_comma =
     ''Expected '' @ [CHR 0x27, CHR '')'', CHR 0x27] @ '' or '' @ [CHR 0x27, CHR '','', CHR 0x27]
       @ '' in argument list''"

definition msg_proto_lparen :: string where
  "msg_proto_lparen = ''Expected '' @ [CHR 0x27, CHR ''('', CHR 0x27] @ '' in prototype''"

definition msg_proto_rparen :: string where
  "msg_proto_rparen = ''Expected '' @ [CHR 0x27, CHR '')'', CHR 0x27] @ '' in prototype''"

definition ParseNumberExpr :: "state \<Rightarrow> ExprAST option \<times> state" where
  "ParseNumberExpr s =
     (let Result = NumberExprAST (NumVal s)
      in (Some Result, snd (getNextToken s)))"

text \<open>
  The expression productions call each other.  Each takes a bound on the depth of calls
  still allowed and returns \<open>None\<close> when the bound is used up; otherwise it returns
  \<open>Some (r, s)\<close> with the pointer \<open>r\<close> the C++ function returns (\<open>None\<close> for
  \<^verbatim>\<open>nullptr\<close>) and the state it leaves.  \<open>ParseArgs\<close> is the \<^verbatim>\<open>while (true)\<close> loop of
  \<^verbatim>\<open>ParseIdentifierExpr\<close> with the vector \<^verbatim>\<open>Args\<close> built so far; it returns \<open>None\<close> for
  the pointer where the loop leaves the function with \<^verbatim>\<open>nullptr\<close>.  The loop of
  \<^verbatim>\<open>ParseBinOpRHS\<close> is its last call to itself.  A bound that is large enough exists
  for every state (\<open>parser_returns\<close> below), and a result does not depend on the bound
  (\<open>fuel_le\<close>).
\<close>

fun ParseExpression :: "nat \<Rightarrow> state \<Rightarrow> (ExprAST option \<times> state) option"
  and ParsePrimary :: "nat \<Rightarrow> state \<Rightarrow> (ExprAST option \<times> state) option"
  and ParseParenExpr :: "nat \<Rightarrow> state \<Rightarrow> (ExprAST option \<times> state) option"
  and ParseIdentifierExpr :: "nat \<Rightarrow> state \<Rightarrow> (ExprAST option \<times> state) option"
  and ParseArgs :: "nat \<Rightarrow> ExprAST list \<Rightarrow> state \<Rightarrow> (ExprAST list option \<times> state) option"
  and ParseBinOpRHS :: "nat \<Rightarrow> int \<Rightarrow> ExprAST \<Rightarrow> state \<Rightarrow> (ExprAST option \<times> state) option"
where
  "ParseExpression 0 s = None"
| "ParseExpression (Suc n) s =
     (case ParsePrimary n s of
        None \<Rightarrow> None
      | Some (None, s1) \<Rightarrow> Some (None, s1)
      | Some (Some LHS, s1) \<Rightarrow> ParseBinOpRHS n 0 LHS s1)"
| "ParsePrimary 0 s = None"
| "ParsePrimary (Suc n) s =
     (if CurTok s = tok_identifier then ParseIdentifierExpr n s
      else if CurTok s = tok_number then Some (ParseNumberExpr s)
      else if CurTok s = 40 then ParseParenExpr n s
      else Some (LogError ''unknown token when expecting an expression'' s))"
| "ParseParenExpr 0 s = None"
| "ParseParenExpr (Suc n) s =
     (let s1 = snd (getNextToken s)
      in case ParseExpression n s1 of
           None \<Rightarrow> None
         | Some (None, s2) \<Rightarrow> Some (None, s2)
         | Some (Some V, s2) \<Rightarrow>
             if CurTok s2 \<noteq> 41 then Some (LogError msg_expected_rparen s2)
             else Some (Some V, snd (getNextToken s2)))"
| "ParseIdentifierExpr 0 s = None"
| "ParseIdentifierExpr (Suc n) s =
     (let IdName = IdentifierStr s;
          s1 = snd (getNextToken s)
      in if CurTok s1 \<noteq> 40 then Some (Some (VariableExprAST IdName), s1)
         else let s2 = snd (getNextToken s1)
              in case (if CurTok s2 \<noteq> 41 then ParseArgs n [] s2 else Some (Some [], s2)) of
                   None \<Rightarrow> None
                 | Some (None, s3) \<Rightarrow> Some (None, s3)
                 | Some (Some Args, s3) \<Rightarrow>
                     Some (Some (CallExprAST IdName Args), snd (getNextToken s3)))"
| "ParseArgs 0 Args s = None"
| "ParseArgs (Suc n) Args s =
     (case ParseExpression n s of
        None \<Rightarrow> None
      | Some (None, s1) \<Rightarrow> Some (None, s1)
      | Some (Some arg, s1) \<Rightarrow>
          if CurTok s1 = 41 then Some (Some (Args @ [arg]), s1)
          else if CurTok s1 \<noteq> 44 then
            Some (None, snd (LogError msg_expected_rparen_or_comma s1))
          else ParseArgs n (Args @ [arg]) (snd (getNextToken s1)))"
| "ParseBinOpRHS 0 ExprPrec LHS s = None"
| "ParseBinOpRHS (Suc n) ExprPrec LHS s =
     (case GetTokPrecedence s of (TokPrec, s1) \<Rightarrow>
        if TokPrec < ExprPrec then Some (Some LHS, s1)
        else let BinOp = CurTok s1;
                 s2 = snd (getNextToken s1)
             in case ParsePrimary n s2 of
                  None \<Rightarrow> None
                | Some (None, s3) \<Rightarrow> Some (None, s3)
                | Some (Some RHS, s3) \<Rightarrow>
                    (case GetTokPrecedence s3 of (NextPrec, s4) \<Rightarrow>
                       (case (if TokPrec < NextPrec then ParseBinOpRHS n (TokPrec + 1) RHS s4
                              else Some (Some RHS, s4)) of
                          None \<Rightarrow> None
                        | Some (None, s5) \<Rightarrow> Some (None, s5)
                        | Some (Some RHS', s5) \<Rightarrow>
                            ParseBinOpRHS n ExprPrec (BinaryExprAST (char_of BinOp) LHS RHS') s5)))"


declare ParseExpression.simps [simp del] ParsePrimary.simps [simp del]
  ParseParenExpr.simps [simp del] ParseIdentifierExpr.simps [simp del]
  ParseArgs.simps [simp del] ParseBinOpRHS.simps [simp del]

text \<open>
  \<^verbatim>\<open>while (getNextToken() == tok_identifier) ArgNames.push_back(IdentifierStr);\<close>
  in \<^verbatim>\<open>ParsePrototype\<close>.
\<close>

function ParsePrototype_ArgNames :: "string list \<Rightarrow> state \<Rightarrow> string list \<times> state" where
  "ParsePrototype_ArgNames ArgNames s =
     (case getNextToken s of (t, s') \<Rightarrow>
        if t = tok_identifier then ParsePrototype_ArgNames (ArgNames @ [IdentifierStr s']) s'
        else (ArgNames, s'))"
  by pat_completeness auto
termination
proof (relation "measure (\<lambda>(a, s). remaining s)")
  show "wf (measure (\<lambda>(a, s). remaining s))" by simp
next
  fix ArgNames :: "string list" and s x :: state and t :: int and s' :: state
  assume g: "(t, s') = getNextToken s" and t: "t = tok_identifier"
  obtain t0 s0 where g0: "gettok s = (t0, s0)" by (cases "gettok s")
  with g have eq: "t = t0" "s' = s0\<lparr>CurTok := t0\<rparr>" by (simp_all add: getNextToken_def)
  from remaining_gettok [of s] g0 t eq have "remaining s0 < remaining s" by simp
  then show "((ArgNames @ [IdentifierStr s'], s'), (ArgNames, s)) \<in> measure (\<lambda>(a, s). remaining s)"
    using eq by (simp add: remaining_def)
qed

declare ParsePrototype_ArgNames.simps [simp del]

definition ParsePrototype :: "state \<Rightarrow> PrototypeAST option \<times> state" where
  "ParsePrototype s =
     (if CurTok s \<noteq> tok_identifier then LogErrorP ''Expected function name in prototype'' s
      else let FnName = IdentifierStr s;
               s1 = snd (getNextToken s)
           in if CurTok s1 \<noteq> 40 then LogErrorP msg_proto_lparen s1
              else case ParsePrototype_ArgNames [] s1 of (ArgNames, s2) \<Rightarrow>
                     if CurTok s2 \<noteq> 41 then LogErrorP msg_proto_rparen s2
                     else (Some (PrototypeAST FnName ArgNames), snd (getNextToken s2)))"

definition ParseDefinition :: "nat \<Rightarrow> state \<Rightarrow> (FunctionAST option \<times> state) option" where
  "ParseDefinition n s =
     (let s1 = snd (getNextToken s)
      in case ParsePrototype s1 of
           (None, s2) \<Rightarrow> Some (None, s2)
         | (Some Proto, s2) \<Rightarrow>
             (case ParseExpression n s2 of
                None \<Rightarrow> None
              | Some (None, s3) \<Rightarrow> Some (None, s3)
              | Some (Some E, s3) \<Rightarrow> Some (Some (FunctionAST Proto E), s3)))"

definition ParseTopLevelExpr :: "nat \<Rightarrow> state \<Rightarrow> (FunctionAST option \<times> state) option" where
  "ParseTopLevelExpr n s =
     (case ParseExpression n s of
        None \<Rightarrow> None
      | Some (None, s1) \<Rightarrow> Some (None, s1)
      | Some (Some E, s1) \<Rightarrow>
          (let Proto = PrototypeAST ''__anon_expr'' []
           in Some (Some (FunctionAST Proto E), s1)))"

definition ParseExtern :: "state \<Rightarrow> PrototypeAST option \<times> state" where
  "ParseExtern s = ParsePrototype (snd (getNextToken s))"

subsection \<open>Top-level driver\<close>

definition HandleDefinition :: "nat \<Rightarrow> state \<Rightarrow> state option" where
  "HandleDefinition n s =
     (case ParseDefinition n s of
        None \<Rightarrow> None
      | Some (Some F, s1) \<Rightarrow>
          Some (fprintf_stderr (''Parsed a function definition.'' @ [CHR 0x0A]) s1)
      | Some (None, s1) \<Rightarrow> Some (snd (getNextToken s1)))"

definition HandleExtern :: "state \<Rightarrow> state" where
  "HandleExtern s =
     (case ParseExtern s of
        (Some P, s1) \<Rightarrow> fprintf_stderr (''Parsed an extern'' @ [CHR 0x0A]) s1
      | (None, s1) \<Rightarrow> snd (getNextToken s1))"

definition HandleTopLevelExpression :: "nat \<Rightarrow> state \<Rightarrow> state option" where
  "HandleTopLevelExpression n s =
     (case ParseTopLevelExpr n s of
        None \<Rightarrow> None
      | Some (Some F, s1) \<Rightarrow> Some (fprintf_stderr (''Parsed a top-level expr'' @ [CHR 0x0A]) s1)
      | Some (None, s1) \<Rightarrow> Some (snd (getNextToken s1)))"

text \<open>
  \<^verbatim>\<open>MainLoop\<close>; the bound counts the iterations still allowed and is the depth bound
  handed to the parser.
\<close>

fun MainLoop :: "nat \<Rightarrow> state \<Rightarrow> state option" where
  "MainLoop 0 s = None"
| "MainLoop (Suc n) s =
     (let s1 = fprintf_stderr ''> '' s
      in if CurTok s1 = tok_eof then Some s1
         else if CurTok s1 = 59 then MainLoop n (snd (getNextToken s1))
         else if CurTok s1 = tok_def then
           (case HandleDefinition n s1 of None \<Rightarrow> None | Some s2 \<Rightarrow> MainLoop n s2)
         else if CurTok s1 = tok_extern then MainLoop n (HandleExtern s1)
         else
           (case HandleTopLevelExpression n s1 of None \<Rightarrow> None | Some s2 \<Rightarrow> MainLoop n s2))"

declare MainLoop.simps [simp del]

text \<open>
  The state in which the program starts on the standard input \<open>inp\<close>: \<^verbatim>\<open>LastChar\<close> is
  initialised to a space, the other variables are zero-initialised.
\<close>

definition initial_state :: "string \<Rightarrow> state" where
  "initial_state inp =
     \<lparr>stdin = inp, LastChar = 32, IdentifierStr = [], NumVal = 0, CurTok = 0,
      BinopPrecedence = [], stderr = []\<rparr>"

text \<open>
  \<^verbatim>\<open>main\<close> up to the call of \<^verbatim>\<open>MainLoop\<close>: it installs the binary operators, prints the
  banner and the first prompt and primes the first token.
\<close>

definition startup :: "string \<Rightarrow> state" where
  "startup inp =
     (let s = initial_state inp;
          s = s\<lparr>BinopPrecedence := map_assign (BinopPrecedence s) (CHR ''<'') 10\<rparr>;
          s = s\<lparr>BinopPrecedence := map_assign (BinopPrecedence s) (CHR ''+'') 20\<rparr>;
          s = s\<lparr>BinopPrecedence := map_assign (BinopPrecedence s) (CHR ''-'') 20\<rparr>;
          s = s\<lparr>BinopPrecedence := map_assign (BinopPrecedence s) (CHR ''*'') 40\<rparr>;
          s = fprintf_stderr (''Bologna v0.1.0'' @ [CHR 0x0A]) s;
          s = fprintf_stderr ''> '' s
      in snd (getNextToken s))"

definition main :: "nat \<Rightarrow> string \<Rightarrow> state option" where
  "main n inp = MainLoop n (startup inp)"



section \<open>The token lexer (Bologna.cpp)\<close>

text \<open>
  The second program of the repository has a lexer class over a line of text, with a
  cursor into it.  \<^verbatim>\<open>_position\<close> is an \<^verbatim>\<open>int\<close>; in the comparison with
  \<^verbatim>\<open>_text.length()\<close> it is converted to \<^verbatim>\<open>size_t\<close>, so a negative value would compare
  above every length.
\<close>

datatype SyntaxKind =
    NumberToken | WhiteSpaceToken | PlusToken | MinusToken | StarToken | SlashToken
  | OpenParenthesesToken | CloseParenthesesToken | EOFToken | BadToken

record SyntaxToken =
  Kind :: SyntaxKind
  Position :: int
  Text :: string
  Value :: int

record Lexer =
  lexer_text :: string
  lexer_position :: int

datatype lexer_exception = stoi_out_of_range | substr_out_of_range

text \<open>The test \<^verbatim>\<open>_position >= _text.length()\<close>.\<close>

definition at_end :: "Lexer \<Rightarrow> bool" where
  "at_end l \<longleftrightarrow> lexer_position l < 0 \<or> length (lexer_text l) \<le> nat (lexer_position l)"

definition Current :: "Lexer \<Rightarrow> char" where
  "Current l = (if at_end l then CHR 0x00 else lexer_text l ! nat (lexer_position l))"

definition Next :: "Lexer \<Rightarrow> Lexer" where
  "Next l = l\<lparr>lexer_position := lexer_position l + 1\<rparr>"

text \<open>\<^verbatim>\<open>while (isdigit(Current())) Next();\<close> and \<^verbatim>\<open>while (Current() == ' ') Next();\<close>\<close>

function skip_digits :: "Lexer \<Rightarrow> Lexer" where
  "skip_digits l = (if isdigit (of_char (Current l)) then skip_digits (Next l) else l)"
  by pat_completeness auto
termination
  by (relation "measure (\<lambda>l. length (lexer_text l) - nat (lexer_position l))")
     (auto simp: Current_def Next_def at_end_def isdigit_def split: if_splits)

declare skip_digits.simps [simp del]

function skip_spaces :: "Lexer \<Rightarrow> Lexer" where
  "skip_spaces l = (if Current l = CHR '' '' then skip_spaces (Next l) else l)"
  by pat_completeness auto
termination
  by (relation "measure (\<lambda>l. length (lexer_text l) - nat (lexer_position l))")
     (auto simp: Current_def Next_def at_end_def split: if_splits)

declare skip_spaces.simps [simp del]

text \<open>
  \<^verbatim>\<open>_text.substr(pos, len)\<close> for a position inside the text, and \<^verbatim>\<open>stoi\<close> on a string
  of digits: it throws \<^verbatim>\<open>std::out_of_range\<close> when the number does not fit an \<^verbatim>\<open>int\<close>.
\<close>

definition substr :: "string \<Rightarrow> int \<Rightarrow> int \<Rightarrow> string" where
  "substr str pos len = take (nat len) (drop (nat pos) str)"

definition stoi :: "string \<Rightarrow> int option" where
  "stoi str = (let v = int (decimal 0 str) in if 2147483647 < v then None else Some v)"

text \<open>
  \<^verbatim>\<open>Lexer::NextToken\<close>.  In the last statement,
  \<^verbatim>\<open>SyntaxToken(BadToken, _position++, _text.substr(_position - 1, 1), 0)\<close>, the language
  leaves the order of the two arguments to the compiler; \<open>left_to_right\<close> says which one
  the compiler took.  When the substring is taken first, at position 0 its start
  \<^verbatim>\<open>_position - 1\<close> converts to a \<^verbatim>\<open>size_t\<close> beyond the text and \<^verbatim>\<open>substr\<close> throws.
\<close>

definition NextToken :: "bool \<Rightarrow> Lexer \<Rightarrow> lexer_exception + (SyntaxToken \<times> Lexer)" where
  "NextToken left_to_right l =
     (if at_end l then
        Inr (\<lparr>Kind = EOFToken, Position = lexer_position l, Text = [], Value = 0\<rparr>, l)
      else if isdigit (of_char (Current l)) then
        (let start = lexer_position l;
             l' = skip_digits l;
             len = lexer_position l' - start;
             txt = substr (lexer_text l') start len
         in case stoi txt of
              None \<Rightarrow> Inl stoi_out_of_range
            | Some v \<Rightarrow> Inr (\<lparr>Kind = NumberToken, Position = start, Text = txt, Value = v\<rparr>, l'))
      else if Current l = CHR '' '' then
        (let start = lexer_position l;
             l' = skip_spaces l;
             len = lexer_position l' - start;
             txt = substr (lexer_text l') start len
         in Inr (\<lparr>Kind = WhiteSpaceToken, Position = start, Text = txt, Value = 0\<rparr>, l'))
      else if Current l = CHR ''+'' then
        Inr (\<lparr>Kind = PlusToken, Position = lexer_position l, Text = ''+'', Value = 0\<rparr>, Next l)
      else if Current l = CHR ''-'' then
        Inr (\<lparr>Kind = MinusToken, Position = lexer_position l, Text = ''-'', Value = 0\<rparr>, Next l)
      else if Current l = CHR ''*'' then
        Inr (\<lparr>Kind = StarToken, Position = lexer_position l, Text = ''*'', Value = 0\<rparr>, Next l)
      else if Current l = CHR ''/'' then
        Inr (\<lparr>Kind = SlashToken, Position = lexer_position l, Text = ''/'', Value = 0\<rparr>, Next l)
      else if Current l = CHR ''('' then
        Inr (\<lparr>Kind = OpenParenthesesToken, Position = lexer_position l, Text = ''('', Value = 0\<rparr>,
             Next l)
      else if Current l = CHR '')'' then
        Inr (\<lparr>Kind = CloseParenthesesToken, Position = lexer_position l, Text = '')'', Value = 0\<rparr>,
             Next l)
      else if left_to_right then
        Inr (\<lparr>Kind = BadToken, Position = lexer_position l,
              Text = substr (lexer_text l) (lexer_position (Next l) - 1) 1, Value = 0\<rparr>, Next l)
      else if lexer_position l - 1 < 0 then Inl substr_out_of_range
      else
        Inr (\<lparr>Kind = BadToken, Position = lexer_position l,
              Text = substr (lexer_text l) (lexer_position l - 1) 1, Value = 0\<rparr>, Next l))"

section \<open>Inputs and states used in the statements\<close>

text \<open>
  Texts made of whitespace and comments only.  A comment starts at \<^verbatim>\<open>#\<close> and runs to the
  first line feed or carriage return, or to the end of the text.
\<close>

fun blank :: "string \<Rightarrow> bool" and in_comment :: "string \<Rightarrow> bool" where
  "blank [] = True"
| "blank (c # cs) =
     (if isspace (of_char c) then blank cs
      else if c = CHR ''#'' then in_comment cs
      else False)"
| "in_comment [] = True"
| "in_comment (c # cs) = (if c = CHR 0x0A \<or> c = CHR 0x0D then blank cs else in_comment cs)"

text \<open>
  The parser variables the lexer has no access to: lookahead, precedence table and
  error stream.
\<close>

definition same_parser_vars :: "state \<Rightarrow> state \<Rightarrow> bool" where
  "same_parser_vars s s' \<longleftrightarrow>
     CurTok s' = CurTok s \<and> BinopPrecedence s' = BinopPrecedence s \<and> stderr s' = stderr s"

text \<open>
  What is left for the parser to consume: the characters the lexer has not consumed, and
  the lookahead when it is a token.
\<close>

definition pending :: "state \<Rightarrow> nat" where
  "pending s = remaining s + (if CurTok s = tok_eof then 0 else 1)"

text \<open>
  The messages the parser passes to \<^verbatim>\<open>LogError\<close> and \<^verbatim>\<open>LogErrorP\<close>, and the effect of
  one such call on the error stream.
\<close>

definition error_messages :: "string list" where
  "error_messages =
     [''unknown token when expecting an expression'', msg_expected_rparen,
      msg_expected_rparen_or_comma, ''Expected function name in prototype'',
      msg_proto_lparen, msg_proto_rparen]"

definition logged_one_error :: "state \<Rightarrow> state \<Rightarrow> bool" where
  "logged_one_error s s' \<longleftrightarrow>
     (\<exists>msg \<in> set error_messages. stderr s' = stderr s @ [''Error: '' @ msg @ [CHR 0x0A]])"

subsection \<open>States used in the examples\<close>

text \<open>
  The state of the parser on the input \<^verbatim>\<open>1 - 2 - 3\<close> once the first operand is parsed
  (the lookahead is the first \<^verbatim>\<open>-\<close>), and the state after the second operand.
\<close>

definition after_first_operand :: state where
  "after_first_operand = snd (ParseNumberExpr (startup ''1 - 2 - 3''))"

definition after_second_operand :: state where
  "after_second_operand =
     snd (ParseNumberExpr (snd (getNextToken (snd (GetTokPrecedence after_first_operand)))))"

text \<open>
  The same on the input \<^verbatim>\<open>1 - 2 * 3 - 4\<close>: after the operand 1 (the lookahead is the
  first \<^verbatim>\<open>-\<close>), after the operand 2 (the lookahead is \<^verbatim>\<open>*\<close>), after the operand 3 (the
  lookahead is the second \<^verbatim>\<open>-\<close>), and where the call of \<^verbatim>\<open>ParseBinOpRHS\<close> for the
  right-hand side of the first \<^verbatim>\<open>-\<close> returns.
\<close>

definition mixed_first_operand :: state where
  "mixed_first_operand = snd (ParseNumberExpr (startup ''1 - 2 * 3 - 4''))"

definition mixed_second_operand :: state where
  "mixed_second_operand =
     snd (ParseNumberExpr (snd (getNextToken (snd (GetTokPrecedence mixed_first_operand)))))"

definition mixed_third_operand :: state where
  "mixed_third_operand =
     snd (ParseNumberExpr (snd (getNextToken
       (snd (GetTokPrecedence (snd (GetTokPrecedence mixed_second_operand)))))))"

definition mixed_after_product :: state where
  "mixed_after_product = snd (GetTokPrecedence (snd (GetTokPrecedence mixed_third_operand)))"



definition proto_no_lparen :: state where
  "proto_no_lparen = snd (getNextToken (startup ''extern sin x''))"




text \<open>
  The states in which the parser detects the error on the inputs \<^verbatim>\<open>(\<close>, \<^verbatim>\<open>foo(1,\<close> and
  \<^verbatim>\<open>def\<close>: after the \<^verbatim>\<open>(\<close>, after the comma, and after the keyword.  In each the
  lookahead is \<^verbatim>\<open>tok_eof\<close>.
\<close>

definition paren_inner :: state where
  "paren_inner = snd (getNextToken (startup ''(''))"

definition call_first_arg :: state where
  "call_first_arg = snd (getNextToken (snd (getNextToken (startup ''foo(1,''))))"

definition call_after_comma :: state where
  "call_after_comma =
     snd (getNextToken (snd (GetTokPrecedence (snd (ParseNumberExpr call_first_arg)))))"

definition def_inner :: state where
  "def_inner = snd (getNextToken (startup ''def''))"

section \<open>Properties\<close>

subsection \<open>The depth bound\<close>

text \<open>A result reached within a bound is the result within every larger bound.\<close>

lemma fuel_Suc:
  "(\<forall>s r. ParseExpression n s = Some r \<longrightarrow> ParseExpression (Suc n) s = Some r)
 \<and> (\<forall>s r. ParsePrimary n s = Some r \<longrightarrow> ParsePrimary (Suc n) s = Some r)
 \<and> (\<forall>s r. ParseParenExpr n s = Some r \<longrightarrow> ParseParenExpr (Suc n) s = Some r)
 \<and> (\<forall>s r. ParseIdentifierExpr n s = Some r \<longrightarrow> ParseIdentifierExpr (Suc n) s = Some r)
 \<and> (\<forall>s r a. ParseArgs n a s = Some r \<longrightarrow> ParseArgs (Suc n) a s = Some r)
 \<and> (\<forall>s r p l. ParseBinOpRHS n p l s = Some r \<longrightarrow> ParseBinOpRHS (Suc n) p l s = Some r)"
proof (induction n)
  case 0
  show ?case
    by (simp add: ParseExpression.simps ParsePrimary.simps ParseParenExpr.simps
        ParseIdentifierExpr.simps ParseArgs.simps ParseBinOpRHS.simps)
next
  case (Suc n)
  have e: "\<And>s r. ParseExpression n s = Some r \<Longrightarrow> ParseExpression (Suc n) s = Some r"
    and p: "\<And>s r. ParsePrimary n s = Some r \<Longrightarrow> ParsePrimary (Suc n) s = Some r"
    and q: "\<And>s r. ParseParenExpr n s = Some r \<Longrightarrow> ParseParenExpr (Suc n) s = Some r"
    and i: "\<And>s r. ParseIdentifierExpr n s = Some r \<Longrightarrow> ParseIdentifierExpr (Suc n) s = Some r"
    and a: "\<And>s r a. ParseArgs n a s = Some r \<Longrightarrow> ParseArgs (Suc n) a s = Some r"
    and b: "\<And>s r p l. ParseBinOpRHS n p l s = Some r \<Longrightarrow> ParseBinOpRHS (Suc n) p l s = Some r"
    using Suc.IH by blast+
  have 1: "ParseExpression (Suc (Suc n)) s = Some r" if "ParseExpression (Suc n) s = Some r" for s r
    using that
    by (subst ParseExpression.simps, subst (asm) ParseExpression.simps)
       (auto split: option.splits prod.splits simp: p b)
  have 2: "ParsePrimary (Suc (Suc n)) s = Some r" if "ParsePrimary (Suc n) s = Some r" for s r
    using that
    by (subst ParsePrimary.simps, subst (asm) ParsePrimary.simps)
       (auto split: if_splits simp: i q)
  have 3: "ParseParenExpr (Suc (Suc n)) s = Some r" if "ParseParenExpr (Suc n) s = Some r" for s r
    using that
    by (subst ParseParenExpr.simps, subst (asm) ParseParenExpr.simps)
       (auto simp: Let_def e split: option.splits prod.splits if_splits)
  have 4: "ParseIdentifierExpr (Suc (Suc n)) s = Some r"
    if "ParseIdentifierExpr (Suc n) s = Some r" for s r
    using that
    by (subst ParseIdentifierExpr.simps, subst (asm) ParseIdentifierExpr.simps)
       (auto simp: Let_def a split: option.splits prod.splits if_splits)
  have 5: "ParseArgs (Suc (Suc n)) as s = Some r" if "ParseArgs (Suc n) as s = Some r" for s r as
    using that
    by (subst ParseArgs.simps, subst (asm) ParseArgs.simps)
       (auto simp: Let_def a e split: option.splits prod.splits if_splits)
  have 6: "ParseBinOpRHS (Suc (Suc n)) pr l s = Some r"
    if "ParseBinOpRHS (Suc n) pr l s = Some r" for s r pr l
    using that
    by (subst ParseBinOpRHS.simps, subst (asm) ParseBinOpRHS.simps)
       (auto simp: Let_def p b split: option.splits prod.splits if_splits)
  show ?case using 1 2 3 4 5 6 by blast
qed

lemma ParseExpression_fuel:
  "ParseExpression n s = Some r \<Longrightarrow> ParseExpression (n + k) s = Some r"
proof (induction k)
  case 0
  then show ?case by simp
next
  case (Suc k)
  then have "ParseExpression (n + k) s = Some r" by simp
  with fuel_Suc [of "n + k"] show ?case by (cases r) simp
qed

lemma fuel_add:
  "(\<forall>s r. ParseExpression n s = Some r \<longrightarrow> ParseExpression (n + k) s = Some r)
 \<and> (\<forall>s r. ParsePrimary n s = Some r \<longrightarrow> ParsePrimary (n + k) s = Some r)
 \<and> (\<forall>s r. ParseParenExpr n s = Some r \<longrightarrow> ParseParenExpr (n + k) s = Some r)
 \<and> (\<forall>s r. ParseIdentifierExpr n s = Some r \<longrightarrow> ParseIdentifierExpr (n + k) s = Some r)
 \<and> (\<forall>s r a. ParseArgs n a s = Some r \<longrightarrow> ParseArgs (n + k) a s = Some r)
 \<and> (\<forall>s r p l. ParseBinOpRHS n p l s = Some r \<longrightarrow> ParseBinOpRHS (n + k) p l s = Some r)"
proof (induction k)
  case 0
  show ?case by simp
next
  case (Suc k)
  show ?case using Suc fuel_Suc [of "n + k"] by simp
qed

lemma fuel_le:
  assumes "n \<le> m"
  shows "ParseExpression n s = Some r \<Longrightarrow> ParseExpression m s = Some r"
    and "ParsePrimary n s = Some r \<Longrightarrow> ParsePrimary m s = Some r"
    and "ParseParenExpr n s = Some r \<Longrightarrow> ParseParenExpr m s = Some r"
    and "ParseIdentifierExpr n s = Some r \<Longrightarrow> ParseIdentifierExpr m s = Some r"
    and "ParseArgs n as s = Some ra \<Longrightarrow> ParseArgs m as s = Some ra"
    and "ParseBinOpRHS n pr l s = Some r \<Longrightarrow> ParseBinOpRHS m pr l s = Some r"
proof -
  from assms obtain k where m: "m = n + k" using le_Suc_ex by blast
  note f = fuel_add [of n k, folded m]
  show "ParseExpression n s = Some r \<Longrightarrow> ParseExpression m s = Some r"
    by (rule f [THEN conjunct1, rule_format])
  show "ParsePrimary n s = Some r \<Longrightarrow> ParsePrimary m s = Some r"
    by (rule f [THEN conjunct2, THEN conjunct1, rule_format])
  show "ParseParenExpr n s = Some r \<Longrightarrow> ParseParenExpr m s = Some r"
    by (rule f [THEN conjunct2, THEN conjunct2, THEN conjunct1, rule_format])
  show "ParseIdentifierExpr n s = Some r \<Longrightarrow> ParseIdentifierExpr m s = Some r"
    by (rule f [THEN conjunct2, THEN conjunct2, THEN conjunct2, THEN conjunct1, rule_format])
  show "ParseArgs n as s = Some ra \<Longrightarrow> ParseArgs m as s = Some ra"
    by (rule f [THEN conjunct2, THEN conjunct2, THEN conjunct2, THEN conjunct2, THEN conjunct1,
          rule_format])
  show "ParseBinOpRHS n pr l s = Some r \<Longrightarrow> ParseBinOpRHS m pr l s = Some r"
    by (rule f [THEN conjunct2, THEN conjunct2, THEN conjunct2, THEN conjunct2, THEN conjunct2,
          rule_format])
qed

text \<open>The depth bound in the functions above the expression parser.\<close>

lemma ParseTopLevelExpr_fuel:
  "ParseTopLevelExpr n s = Some r \<Longrightarrow> ParseTopLevelExpr (n + k) s = Some r"
proof -
  assume a: "ParseTopLevelExpr n s = Some r"
  then obtain x where x: "ParseExpression n s = Some x"
    by (cases "ParseExpression n s") (simp_all add: ParseTopLevelExpr_def)
  from ParseExpression_fuel [OF x, of k] a x show ?thesis
    by (simp add: ParseTopLevelExpr_def)
qed

lemma ParseDefinition_fuel:
  "ParseDefinition n s = Some r \<Longrightarrow> ParseDefinition (n + k) s = Some r"
proof -
  assume a: "ParseDefinition n s = Some r"
  obtain pr s2 where p: "ParsePrototype (snd (getNextToken s)) = (pr, s2)"
    by (cases "ParsePrototype (snd (getNextToken s))")
  show ?thesis
  proof (cases pr)
    case None
    with a p show ?thesis by (simp add: ParseDefinition_def Let_def)
  next
    case (Some Proto)
    with a p obtain x where x: "ParseExpression n s2 = Some x"
      by (cases "ParseExpression n s2") (simp_all add: ParseDefinition_def Let_def)
    from ParseExpression_fuel [OF x, of k] a p x Some show ?thesis
      by (simp add: ParseDefinition_def Let_def)
  qed
qed

lemma HandleDefinition_fuel:
  "HandleDefinition n s = Some r \<Longrightarrow> HandleDefinition (n + k) s = Some r"
proof -
  assume a: "HandleDefinition n s = Some r"
  then obtain x where x: "ParseDefinition n s = Some x"
    by (cases "ParseDefinition n s") (simp_all add: HandleDefinition_def)
  from ParseDefinition_fuel [OF x, of k] a x show ?thesis
    by (simp add: HandleDefinition_def)
qed

lemma HandleTopLevelExpression_fuel:
  "HandleTopLevelExpression n s = Some r \<Longrightarrow> HandleTopLevelExpression (n + k) s = Some r"
proof -
  assume a: "HandleTopLevelExpression n s = Some r"
  then obtain x where x: "ParseTopLevelExpr n s = Some x"
    by (cases "ParseTopLevelExpr n s") (simp_all add: HandleTopLevelExpression_def)
  from ParseTopLevelExpr_fuel [OF x, of k] a x show ?thesis
    by (simp add: HandleTopLevelExpression_def)
qed

lemma MainLoop_fuel: "MainLoop n s = Some r \<Longrightarrow> MainLoop (n + k) s = Some r"
proof (induction n arbitrary: s)
  case 0
  then show ?case by (simp add: MainLoop.simps)
next
  case (Suc n)
  define s1 where "s1 = fprintf_stderr ''> '' s"
  have hd: "HandleDefinition (n + k) s1 = Some s2" if "HandleDefinition n s1 = Some s2" for s2
    using that by (rule HandleDefinition_fuel)
  have ht: "HandleTopLevelExpression (n + k) s1 = Some s2"
    if "HandleTopLevelExpression n s1 = Some s2" for s2
    using that by (rule HandleTopLevelExpression_fuel)
  have eq: "Suc n + k = Suc (n + k)" by simp
  show ?case
    using Suc.prems
    unfolding eq
    by (subst MainLoop.simps, subst (asm) MainLoop.simps)
       (auto simp: Let_def s1_def [symmetric] Suc.IH hd ht split: option.splits if_splits)
qed

lemma main_fuel: "main n inp = Some r \<Longrightarrow> main (n + k) inp = Some r"
  unfolding main_def by (rule MainLoop_fuel)

subsection \<open>What the lexer leaves alone\<close>

text \<open>
  The lexer writes \<^verbatim>\<open>LastChar\<close>, \<^verbatim>\<open>IdentifierStr\<close> and \<^verbatim>\<open>NumVal\<close> and consumes standard
  input; it touches neither the lookahead nor the precedence table nor the error stream.
\<close>

lemma frame_read_char: "same_parser_vars s (read_char s)"
  by (simp add: same_parser_vars_def read_char_def getchar_def split: list.splits)

lemma frame_skip_whitespace: "same_parser_vars s (skip_whitespace s)"
proof (induction s rule: skip_whitespace.induct)
  case (1 s)
  then show ?case
    using frame_read_char [of s]
    by (subst skip_whitespace.simps) (auto simp: same_parser_vars_def)
qed

lemma frame_read_identifier: "same_parser_vars s (read_identifier s)"
proof (induction s rule: read_identifier.induct)
  case (1 s)
  then show ?case
    using frame_read_char [of s]
    by (subst read_identifier.simps) (auto simp: same_parser_vars_def Let_def)
qed

lemma frame_read_number: "same_parser_vars s (snd (read_number n s))"
proof (induction n s rule: read_number.induct)
  case (1 NumStr s)
  then show ?case
    using frame_read_char [of s]
    by (subst read_number.simps) (auto simp: same_parser_vars_def Let_def)
qed

lemma frame_skip_comment: "same_parser_vars s (skip_comment s)"
proof (induction s rule: skip_comment.induct)
  case (1 s)
  then show ?case
    using frame_read_char [of s]
    by (subst skip_comment.simps) (auto simp: same_parser_vars_def Let_def)
qed

lemma frame_gettok: "same_parser_vars s0 (snd (gettok s0))"
proof (induction s0 rule: gettok.induct)
  case (1 s0)
  define s where "s = skip_whitespace s0"
  have f0: "same_parser_vars s0 s" unfolding s_def by (rule frame_skip_whitespace)
  have f1: "same_parser_vars s (read_identifier (s\<lparr>IdentifierStr := [char_of (LastChar s)]\<rparr>))"
    using frame_read_identifier [of "s\<lparr>IdentifierStr := [char_of (LastChar s)]\<rparr>"]
    by (simp add: same_parser_vars_def)
  have f2: "same_parser_vars s (snd (read_number [] s))" by (rule frame_read_number)
  have f3: "same_parser_vars s (skip_comment s)" by (rule frame_skip_comment)
  have f4: "same_parser_vars s1 (read_char s1)" for s1 by (rule frame_read_char)
  have f5: "same_parser_vars (skip_comment s) (snd (gettok (skip_comment s)))"
    if "\<not> isalpha (LastChar s)" "\<not> (isdigit (LastChar s) \<or> LastChar s = 46)"
      "LastChar s = 35 \<and> LastChar (skip_comment s) \<noteq> EOF"
    using "1.IH" [of s] that by (simp add: s_def)
  show ?case
    apply (subst gettok.simps)
    using f0 f1 f2 f3 f4 [of s] f4 [of "skip_comment s"] f5
    apply (auto simp: Let_def s_def [symmetric] same_parser_vars_def split: prod.splits)
    done
qed

lemma getNextToken_frame:
  "BinopPrecedence (snd (getNextToken s)) = BinopPrecedence s"
  "stderr (snd (getNextToken s)) = stderr s"
  "CurTok (snd (getNextToken s)) = fst (getNextToken s)"
  using frame_gettok [of s]
  by (auto simp: getNextToken_def same_parser_vars_def split: prod.splits)

lemma BinopPrecedence_startup:
  "BinopPrecedence (startup inp) =
     [(CHR ''<'', 10), (CHR ''+'', 20), (CHR ''-'', 20), (CHR ''*'', 40)]"
  by (simp add: startup_def getNextToken_frame initial_state_def map_assign_def
      fprintf_stderr_def)


subsection \<open>The parser always returns\<close>

text \<open>
  No production gives back input, a production that succeeds has consumed a token, and
  one that fails has either consumed a token or left the lookahead where it was.
\<close>

lemma remaining_getNextToken:
  "remaining (snd (getNextToken s)) \<le> remaining s"
  "CurTok (snd (getNextToken s)) \<noteq> tok_eof \<Longrightarrow> remaining (snd (getNextToken s)) < remaining s"
  using remaining_gettok [of s]
  by (auto simp: getNextToken_def remaining_def split: prod.splits)

lemma pending_getNextToken: "pending (snd (getNextToken s)) \<le> remaining s"
  using remaining_getNextToken [of s] by (auto simp: pending_def)

lemma remaining_le_pending: "remaining s \<le> pending s"
  by (simp add: pending_def)

lemma pending_eat: "CurTok s \<noteq> tok_eof \<Longrightarrow> pending (snd (getNextToken s)) < pending s"
  using pending_getNextToken [of s] by (simp add: pending_def)

lemma GetTokPrecedence_pending:
  "GetTokPrecedence s = (p, s1) \<Longrightarrow> pending s1 = pending s \<and> remaining s1 = remaining s \<and> CurTok s1 = CurTok s"
  by (auto simp: GetTokPrecedence_def pending_def remaining_def split: prod.splits if_splits)

lemma GetTokPrecedence_operator:
  "GetTokPrecedence s = (p, s1) \<Longrightarrow> 0 \<le> p \<Longrightarrow> CurTok s \<noteq> tok_eof"
  by (auto simp: GetTokPrecedence_def isascii_def split: prod.splits if_splits)

lemma LogError_pending:
  "LogError msg s = (r, s') \<Longrightarrow> pending s' = pending s \<and> remaining s' = remaining s \<and> CurTok s' = CurTok s \<and> r = None"
  by (auto simp: LogError_def fprintf_stderr_def pending_def remaining_def)

lemma pending_next_le: "pending x \<le> k \<Longrightarrow> pending (snd (getNextToken x)) \<le> k"
  using pending_getNextToken [of x] remaining_le_pending [of x] by simp

lemma pending_next_le': "pending x < k \<Longrightarrow> pending (snd (getNextToken x)) \<le> k"
  using pending_getNextToken [of x] remaining_le_pending [of x] by simp

lemma pending_LogError: "pending (snd (LogError m s)) = pending s"
  by (simp add: LogError_def fprintf_stderr_def pending_def remaining_def)

lemma parse_pending:
  "(\<forall>s r s'. ParseExpression n s = Some (r, s') \<longrightarrow>
      pending s' \<le> pending s \<and> (r \<noteq> None \<longrightarrow> pending s' < pending s)
      \<and> (r = None \<longrightarrow> pending s' < pending s \<or> CurTok s' = CurTok s))
 \<and> (\<forall>s r s'. ParsePrimary n s = Some (r, s') \<longrightarrow>
      pending s' \<le> pending s \<and> (r \<noteq> None \<longrightarrow> pending s' < pending s)
      \<and> (r = None \<longrightarrow> pending s' < pending s \<or> CurTok s' = CurTok s))
 \<and> (\<forall>s r s'. ParseParenExpr n s = Some (r, s') \<longrightarrow> pending s' \<le> remaining s)
 \<and> (\<forall>s r s'. ParseIdentifierExpr n s = Some (r, s') \<longrightarrow> pending s' \<le> remaining s)
 \<and> (\<forall>s r s' as. ParseArgs n as s = Some (r, s') \<longrightarrow> pending s' \<le> pending s)
 \<and> (\<forall>s r s' pr l. ParseBinOpRHS n pr l s = Some (r, s') \<longrightarrow> pending s' \<le> pending s)"
proof (induction n)
  case 0
  show ?case
    by (simp add: ParseExpression.simps ParsePrimary.simps ParseParenExpr.simps
        ParseIdentifierExpr.simps ParseArgs.simps ParseBinOpRHS.simps)
next
  case (Suc n)
  note e = Suc.IH [THEN conjunct1, rule_format]
  note p = Suc.IH [THEN conjunct2, THEN conjunct1, rule_format]
  note q = Suc.IH [THEN conjunct2, THEN conjunct2, THEN conjunct1, rule_format]
  note i = Suc.IH [THEN conjunct2, THEN conjunct2, THEN conjunct2, THEN conjunct1, rule_format]
  note a = Suc.IH [THEN conjunct2, THEN conjunct2, THEN conjunct2, THEN conjunct2,
      THEN conjunct1, rule_format]
  note b = Suc.IH [THEN conjunct2, THEN conjunct2, THEN conjunct2, THEN conjunct2,
      THEN conjunct2, rule_format]
  have 1: "pending s' \<le> pending s \<and> (r \<noteq> None \<longrightarrow> pending s' < pending s)
      \<and> (r = None \<longrightarrow> pending s' < pending s \<or> CurTok s' = CurTok s)"
    if "ParseExpression (Suc n) s = Some (r, s')" for s r s'
    using that
    apply (subst (asm) ParseExpression.simps)
    apply (auto split: option.splits prod.splits dest!: p b)
    done
  have 2: "pending s' \<le> pending s \<and> (r \<noteq> None \<longrightarrow> pending s' < pending s)
      \<and> (r = None \<longrightarrow> pending s' < pending s \<or> CurTok s' = CurTok s)"
    if "ParsePrimary (Suc n) s = Some (r, s')" for s r s'
  proof -
    have ne: "pending (snd (getNextToken s)) \<le> remaining s" by (rule pending_getNextToken)
    show ?thesis
    using that ne
    apply (subst (asm) ParsePrimary.simps)
    apply (auto split: if_splits dest!: i q LogError_pending simp: ParseNumberExpr_def)
    apply (auto simp: pending_def)
    done
  qed
  have 3: "pending s' \<le> remaining s"
    if "ParseParenExpr (Suc n) s = Some (r, s')" for s r s'
  proof -
    have ne: "pending (snd (getNextToken s)) \<le> remaining s" by (rule pending_getNextToken)
    have ne2: "pending (snd (getNextToken x)) \<le> pending x" for x
      using pending_getNextToken [of x] remaining_le_pending [of x] by simp
    show ?thesis
    using that ne
    apply (subst (asm) ParseParenExpr.simps)
    apply (auto simp: Let_def split: option.splits prod.splits if_splits dest!: e LogError_pending)
    apply (auto intro: pending_next_le pending_next_le')
    done
  qed
  have 4: "pending s' \<le> remaining s"
    if "ParseIdentifierExpr (Suc n) s = Some (r, s')" for s r s'
  proof -
    have ne: "pending (snd (getNextToken s)) \<le> remaining s" by (rule pending_getNextToken)
    have ne2: "pending (snd (getNextToken x)) \<le> pending x" for x
      using pending_getNextToken [of x] remaining_le_pending [of x] by simp
    have ne3: "pending (snd (getNextToken (snd (getNextToken s)))) \<le> remaining s" 
      using ne ne2 [of "snd (getNextToken s)"] by simp
    show ?thesis
    using that ne ne3
    apply (subst (asm) ParseIdentifierExpr.simps)
    apply (auto simp: Let_def split: option.splits prod.splits if_splits dest!: a)
    apply (auto intro: pending_next_le pending_next_le')
    done
  qed
  have 5: "pending s' \<le> pending s"
    if "ParseArgs (Suc n) as s = Some (r, s')" for s r s' as
  proof -
    have a': "pending s' \<le> pending x"
      if "ParseArgs n as (snd (getNextToken x)) = Some (r, s')" for x as r s'
      using a [OF that] pending_next_le [of x "pending x"] by simp
    show ?thesis
      using that
      apply (subst (asm) ParseArgs.simps)
      apply (auto simp: Let_def pending_LogError split: option.splits prod.splits if_splits
          dest!: a' e)
      done
  qed
  have 6: "pending s' \<le> pending s"
    if "ParseBinOpRHS (Suc n) pr l s = Some (r, s')" for s r s' pr l
  proof -
    have p': "pending s' \<le> pending x"
      if "ParsePrimary n (snd (getNextToken x)) = Some (r, s')" for x r s'
      using p [OF that] pending_next_le [of x "pending x"] by simp
    show ?thesis
      using that
      apply (subst (asm) ParseBinOpRHS.simps)
      apply (auto simp: Let_def split: option.splits prod.splits if_splits
          dest!: p' b GetTokPrecedence_pending)
      done
  qed
  show ?case by (intro conjI allI impI) (auto dest: 1 2 3 4 5 6)
qed

text \<open>
  So every call returns within some depth bound, by induction on what is left to
  consume; with the monotonicity above, within every larger bound too.
\<close>

lemma parser_returns_aux:
  "\<forall>s. (4 * pending s + 3 \<le> k \<longrightarrow> (\<exists>n r. ParseExpression n s = Some r))
     \<and> (4 * pending s + 2 \<le> k \<longrightarrow> (\<exists>n r. ParsePrimary n s = Some r))
     \<and> (4 * remaining s + 4 \<le> k \<longrightarrow> (\<exists>n r. ParseParenExpr n s = Some r))
     \<and> (4 * remaining s + 5 \<le> k \<longrightarrow> (\<exists>n r. ParseIdentifierExpr n s = Some r))
     \<and> (4 * pending s + 4 \<le> k \<longrightarrow> (\<forall>as. \<exists>n r. ParseArgs n as s = Some r))
     \<and> (4 * pending s + 3 \<le> k \<longrightarrow> (\<forall>pr l. \<exists>n r. ParseBinOpRHS n pr l s = Some r))"
proof (induction k)
  case 0
  show ?case by simp
next
  case (Suc k)
  note pe = parse_pending [THEN conjunct1, rule_format]
  note pp = parse_pending [THEN conjunct2, THEN conjunct1, rule_format]
  note pb = parse_pending [THEN conjunct2, THEN conjunct2, THEN conjunct2, THEN conjunct2,
      THEN conjunct2, rule_format]
  have E: "\<exists>n r. ParseExpression n s = Some r" if "4 * pending s + 3 \<le> k" for s
    using Suc.IH that by blast
  have P: "\<exists>n r. ParsePrimary n s = Some r" if "4 * pending s + 2 \<le> k" for s
    using Suc.IH that by blast
  have Q: "\<exists>n r. ParseParenExpr n s = Some r" if "4 * remaining s + 4 \<le> k" for s
    using Suc.IH that by blast
  have I: "\<exists>n r. ParseIdentifierExpr n s = Some r" if "4 * remaining s + 5 \<le> k" for s
    using Suc.IH that by blast
  have A: "\<exists>n r. ParseArgs n as s = Some r" if "4 * pending s + 4 \<le> k" for s as
    using Suc.IH that by blast
  have B: "\<exists>n r. ParseBinOpRHS n pr l s = Some r" if "4 * pending s + 3 \<le> k" for s pr l
    using Suc.IH that by blast
  show ?case
  proof (intro allI conjI impI)
    fix s
    assume m: "4 * pending s + 3 \<le> Suc k"
    then obtain n1 r1 s1 where p1: "ParsePrimary n1 s = Some (r1, s1)"
      using P [of s] by auto
    show "\<exists>n r. ParseExpression n s = Some r"
    proof (cases r1)
      case None
      with p1 have "ParseExpression (Suc n1) s = Some (None, s1)"
        by (simp add: ParseExpression.simps)
      then show ?thesis by blast
    next
      case (Some LHS)
      with pp [OF p1] have "pending s1 < pending s" by simp
      with m obtain n2 r2 where b2: "ParseBinOpRHS n2 0 LHS s1 = Some r2"
        using B [of s1 0 LHS] by auto
      let ?n = "max n1 n2"
      have "ParsePrimary ?n s = Some (Some LHS, s1)"
        using fuel_le(2) [OF _ p1, of ?n] Some by simp
      moreover have "ParseBinOpRHS ?n 0 LHS s1 = Some r2"
        using fuel_le(6) [OF _ b2, of ?n] by simp
      ultimately have "ParseExpression (Suc ?n) s = Some r2"
        by (simp add: ParseExpression.simps)
      then show ?thesis by blast
    qed
  next
    fix s
    assume m: "4 * pending s + 2 \<le> Suc k"
    have rem: "4 * remaining s + 5 \<le> k" if "CurTok s \<noteq> tok_eof"
      using m that by (simp add: pending_def)
    consider (ident) "CurTok s = tok_identifier" | (num) "CurTok s = tok_number"
      | (paren) "CurTok s = 40" | (other) "CurTok s \<noteq> tok_identifier" "CurTok s \<noteq> tok_number" "CurTok s \<noteq> 40"
      by blast
    then show "\<exists>n r. ParsePrimary n s = Some r"
    proof cases
      case ident
      with rem obtain n r where "ParseIdentifierExpr n s = Some r" using I [of s] by auto
      with ident have "ParsePrimary (Suc n) s = Some r" by (simp add: ParsePrimary.simps)
      then show ?thesis by blast
    next
      case num
      then have "ParsePrimary (Suc 0) s = Some (ParseNumberExpr s)" by (simp add: ParsePrimary.simps)
      then show ?thesis by blast
    next
      case paren
      with rem obtain n r where "ParseParenExpr n s = Some r" using Q [of s] by auto
      with paren have "ParsePrimary (Suc n) s = Some r" by (simp add: ParsePrimary.simps)
      then show ?thesis by blast
    next
      case other
      then have "ParsePrimary (Suc 0) s = Some (LogError ''unknown token when expecting an expression'' s)"
        by (simp add: ParsePrimary.simps)
      then show ?thesis by blast
    qed
  next
    fix s
    assume m: "4 * remaining s + 4 \<le> Suc k"
    let ?s1 = "snd (getNextToken s)"
    have "4 * pending ?s1 + 3 \<le> k" using m pending_getNextToken [of s] by simp
    then obtain n r where e: "ParseExpression n ?s1 = Some r" using E [of ?s1] by auto
    obtain r0 s2 where r: "r = (r0, s2)" by (cases r)
    have "\<exists>r'. ParseParenExpr (Suc n) s = Some r'"
      using e r by (subst ParseParenExpr.simps) (auto simp: Let_def split: option.splits)
    then show "\<exists>n r. ParseParenExpr n s = Some r" by blast
  next
    fix s
    assume m: "4 * remaining s + 5 \<le> Suc k"
    let ?s1 = "snd (getNextToken s)"
    let ?s2 = "snd (getNextToken ?s1)"
    have "pending ?s2 \<le> remaining s"
      using pending_getNextToken [of ?s1] remaining_getNextToken(1) [of s] by simp
    with m have "4 * pending ?s2 + 4 \<le> k" by simp
    then obtain n r where a: "ParseArgs n [] ?s2 = Some r" using A [of ?s2 "[]"] by auto
    obtain r0 s3 where r: "r = (r0, s3)" by (cases r)
    have "\<exists>r'. ParseIdentifierExpr (Suc n) s = Some r'"
      using a r by (subst ParseIdentifierExpr.simps) (auto simp: Let_def split: option.splits)
    then show "\<exists>n r. ParseIdentifierExpr n s = Some r" by blast
  next
    fix s as
    assume m: "4 * pending s + 4 \<le> Suc k"
    then obtain n1 r1 s1 where e1: "ParseExpression n1 s = Some (r1, s1)"
      using E [of s] by auto
    show "\<exists>n r. ParseArgs n as s = Some r"
    proof (cases r1)
      case None
      with e1 have "ParseArgs (Suc n1) as s = Some (None, s1)" by (simp add: ParseArgs.simps)
      then show ?thesis by blast
    next
      case (Some arg)
      with pe [OF e1] have lt: "pending s1 < pending s" by simp
      show ?thesis
      proof (cases "CurTok s1 = 44")
        case False
        with e1 Some have "\<exists>r'. ParseArgs (Suc n1) as s = Some r'"
          by (simp add: ParseArgs.simps)
        then show ?thesis by blast
      next
        case True
        let ?s2 = "snd (getNextToken s1)"
        have "pending ?s2 \<le> pending s1" by (rule pending_next_le) simp
        with lt m have "4 * pending ?s2 + 4 \<le> k" by simp
        then obtain n2 r2 where a2: "ParseArgs n2 (as @ [arg]) ?s2 = Some r2"
          using A [of ?s2 "as @ [arg]"] by auto
        let ?n = "max n1 n2"
        have "ParseExpression ?n s = Some (Some arg, s1)"
          using fuel_le(1) [OF _ e1, of ?n] Some by simp
        moreover have "ParseArgs ?n (as @ [arg]) ?s2 = Some r2"
          using fuel_le(5) [OF _ a2, of ?n] by simp
        ultimately have "ParseArgs (Suc ?n) as s = Some r2"
          using True by (simp add: ParseArgs.simps)
        then show ?thesis by blast
      qed
    qed
  next
    fix s pr l
    assume m: "4 * pending s + 3 \<le> Suc k"
    obtain TokPrec s1 where g1: "GetTokPrecedence s = (TokPrec, s1)"
      by (cases "GetTokPrecedence s")
    note f1 = GetTokPrecedence_pending [OF g1]
    show "\<exists>n r. ParseBinOpRHS n pr l s = Some r"
    proof (cases "TokPrec < pr")
      case True
      with g1 have "ParseBinOpRHS (Suc 0) pr l s = Some (Some l, s1)"
        by (simp add: ParseBinOpRHS.simps)
      then show ?thesis by blast
    next
      case False
      let ?s2 = "snd (getNextToken s1)"
      have le2: "pending ?s2 \<le> pending s" using pending_next_le [of s1 "pending s1"] f1 by simp
      with m have "4 * pending ?s2 + 2 \<le> k" by simp
      then obtain n1 r1 s3 where p1: "ParsePrimary n1 ?s2 = Some (r1, s3)"
        using P [of ?s2] by auto
      show ?thesis
      proof (cases r1)
        case None
        with g1 False p1 have "ParseBinOpRHS (Suc n1) pr l s = Some (None, s3)"
          by (simp add: ParseBinOpRHS.simps Let_def)
        then show ?thesis by blast
      next
        case (Some RHS)
        with pp [OF p1] have lt3: "pending s3 < pending ?s2" by simp
        obtain NextPrec s4 where g2: "GetTokPrecedence s3 = (NextPrec, s4)"
          by (cases "GetTokPrecedence s3")
        note f2 = GetTokPrecedence_pending [OF g2]
        have m4: "4 * pending s4 + 3 \<le> k" using f2 lt3 le2 m by simp
        show ?thesis
        proof (cases "TokPrec < NextPrec")
          case False
          from m4 obtain n2 r2 where
            b2: "ParseBinOpRHS n2 pr (BinaryExprAST (char_of (CurTok s1)) l RHS) s4 = Some r2"
            using B [of s4 pr "BinaryExprAST (char_of (CurTok s1)) l RHS"] by auto
          let ?n = "max n1 n2"
          have "ParsePrimary ?n ?s2 = Some (Some RHS, s3)"
            using fuel_le(2) [OF _ p1, of ?n] Some by simp
          moreover have "ParseBinOpRHS ?n pr (BinaryExprAST (char_of (CurTok s1)) l RHS) s4 = Some r2"
            using fuel_le(6) [OF _ b2, of ?n] by simp
          ultimately have "ParseBinOpRHS (Suc ?n) pr l s = Some r2"
            using g1 g2 False \<open>\<not> TokPrec < pr\<close> by (simp add: ParseBinOpRHS.simps Let_def)
          then show ?thesis by blast
        next
          case True
          from m4 obtain n2 r2 s5 where b2: "ParseBinOpRHS n2 (TokPrec + 1) RHS s4 = Some (r2, s5)"
            using B [of s4 "TokPrec + 1" RHS] by auto
          show ?thesis
          proof (cases r2)
            case None
            let ?n = "max n1 n2"
            have "ParsePrimary ?n ?s2 = Some (Some RHS, s3)"
              using fuel_le(2) [OF _ p1, of ?n] Some by simp
            moreover have "ParseBinOpRHS ?n (TokPrec + 1) RHS s4 = Some (None, s5)"
              using fuel_le(6) [OF _ b2, of ?n] None by simp
            ultimately have "ParseBinOpRHS (Suc ?n) pr l s = Some (None, s5)"
              using g1 g2 True \<open>\<not> TokPrec < pr\<close> by (simp add: ParseBinOpRHS.simps Let_def)
            then show ?thesis by blast
          next
            case (Some RHS')
            from pb [OF b2] have "pending s5 \<le> pending s4" .
            with m4 have "4 * pending s5 + 3 \<le> k" by simp
            then obtain n3 r3 where
              b3: "ParseBinOpRHS n3 pr (BinaryExprAST (char_of (CurTok s1)) l RHS') s5 = Some r3"
              using B [of s5 pr "BinaryExprAST (char_of (CurTok s1)) l RHS'"] by auto
            let ?n = "max n1 (max n2 n3)"
            have "ParsePrimary ?n ?s2 = Some (Some RHS, s3)"
              using fuel_le(2) [OF _ p1, of ?n] \<open>r1 = Some RHS\<close> by simp
            moreover have "ParseBinOpRHS ?n (TokPrec + 1) RHS s4 = Some (Some RHS', s5)"
              using fuel_le(6) [OF _ b2, of ?n] Some by simp
            moreover have "ParseBinOpRHS ?n pr (BinaryExprAST (char_of (CurTok s1)) l RHS') s5 = Some r3"
              using fuel_le(6) [OF _ b3, of ?n] by simp
            ultimately have "ParseBinOpRHS (Suc ?n) pr l s = Some r3"
              using g1 g2 True \<open>\<not> TokPrec < pr\<close> by (simp add: ParseBinOpRHS.simps Let_def)
            then show ?thesis by blast
          qed
        qed
      qed
    qed
  qed
qed

theorem parser_returns: "\<exists>n r. ParseExpression n s = Some r"
  using parser_returns_aux [of "4 * pending s + 3"] by blast

text \<open>The driver: every pass through \<^verbatim>\<open>MainLoop\<close> consumes a token, so \<^verbatim>\<open>main\<close> returns.\<close>

lemma pending_fprintf [simp]: "pending (fprintf_stderr m s) = pending s"
  by (simp add: fprintf_stderr_def pending_def remaining_def)

lemma CurTok_fprintf [simp]: "CurTok (fprintf_stderr m s) = CurTok s"
  by (simp add: fprintf_stderr_def)

lemma ParsePrototype_ArgNames_pending:
  "pending (snd (ParsePrototype_ArgNames as s)) \<le> pending s"
proof (induction as s rule: ParsePrototype_ArgNames.induct)
  case (1 ArgNames s)
  obtain t s' where g: "getNextToken s = (t, s')" by (cases "getNextToken s")
  then have f: "pending s' \<le> pending s" using pending_next_le [of s "pending s"] by simp
  show ?case
    using "1.IH" g f
    by (subst ParsePrototype_ArgNames.simps) (auto split: prod.splits)
qed

lemma ParsePrototype_pending: "ParsePrototype s = (r, s') \<Longrightarrow> pending s' \<le> pending s"
proof -
  assume a: "ParsePrototype s = (r, s')"
  let ?s1 = "snd (getNextToken s)"
  let ?s2 = "snd (ParsePrototype_ArgNames [] ?s1)"
  have 1: "pending ?s1 \<le> pending s" by (rule pending_next_le) simp
  have 2: "pending ?s2 \<le> pending ?s1" by (rule ParsePrototype_ArgNames_pending)
  have 3: "pending (snd (getNextToken ?s2)) \<le> pending ?s2" by (rule pending_next_le) simp
  from a 1 2 3 show ?thesis
    by (auto simp: ParsePrototype_def Let_def LogErrorP_def LogError_def
        split: if_splits prod.splits)
qed

lemma HandleDefinition_returns:
  assumes "CurTok s \<noteq> tok_eof"
  shows "\<exists>n s'. HandleDefinition n s = Some s' \<and> pending s' < pending s"
proof -
  let ?s1 = "snd (getNextToken s)"
  have lt: "pending ?s1 < pending s" using assms by (rule pending_eat)
  obtain pr s2 where p: "ParsePrototype ?s1 = (pr, s2)" by (cases "ParsePrototype ?s1")
  from ParsePrototype_pending [OF p] have le2: "pending s2 \<le> pending ?s1" .
  show ?thesis
  proof (cases pr)
    case None
    with p have "HandleDefinition 0 s = Some (snd (getNextToken s2))"
      by (simp add: HandleDefinition_def ParseDefinition_def Let_def)
    moreover have "pending (snd (getNextToken s2)) \<le> pending s2" by (rule pending_next_le) simp
    ultimately show ?thesis using lt le2 by (intro exI [of _ 0]) simp
  next
    case (Some Proto)
    obtain n r s3 where e: "ParseExpression n s2 = Some (r, s3)"
      using parser_returns [of s2] by auto
    from parse_pending [THEN conjunct1, rule_format, OF e] have le3: "pending s3 \<le> pending s2" by simp
    have nx: "pending (snd (getNextToken s3)) \<le> pending s3" by (rule pending_next_le) simp
    have "\<exists>s'. HandleDefinition n s = Some s' \<and> pending s' \<le> pending s3"
      using p Some e nx
      by (cases r) (simp_all add: HandleDefinition_def ParseDefinition_def Let_def)
    then show ?thesis using lt le2 le3 by (meson le_less_trans le_trans)
  qed
qed

lemma HandleExtern_pending:
  assumes "CurTok s \<noteq> tok_eof"
  shows "pending (HandleExtern s) < pending s"
proof -
  let ?s1 = "snd (getNextToken s)"
  have lt: "pending ?s1 < pending s" using assms by (rule pending_eat)
  obtain pr s2 where p: "ParsePrototype ?s1 = (pr, s2)" by (cases "ParsePrototype ?s1")
  from ParsePrototype_pending [OF p] have le2: "pending s2 \<le> pending ?s1" .
  have nx: "pending (snd (getNextToken s2)) \<le> pending s2" by (rule pending_next_le) simp
  have "pending (HandleExtern s) \<le> pending s2"
    using p nx by (cases pr) (simp_all add: HandleExtern_def ParseExtern_def)
  with lt le2 show ?thesis by simp
qed

lemma HandleTopLevelExpression_returns:
  assumes "CurTok s \<noteq> tok_eof"
  shows "\<exists>n s'. HandleTopLevelExpression n s = Some s' \<and> pending s' < pending s"
proof -
  obtain n r s1 where e: "ParseExpression n s = Some (r, s1)"
    using parser_returns [of s] by auto
  note pe = parse_pending [THEN conjunct1, rule_format, OF e]
  show ?thesis
  proof (cases r)
    case (Some E)
    with e pe have "HandleTopLevelExpression n s =
        Some (fprintf_stderr (''Parsed a top-level expr'' @ [CHR 0x0A]) s1) \<and> pending s1 < pending s"
      by (simp add: HandleTopLevelExpression_def ParseTopLevelExpr_def)
    then show ?thesis by (intro exI [of _ n]) simp
  next
    case None
    with e have h: "HandleTopLevelExpression n s = Some (snd (getNextToken s1))"
      by (simp add: HandleTopLevelExpression_def ParseTopLevelExpr_def)
    have "pending (snd (getNextToken s1)) < pending s"
    proof (cases "pending s1 < pending s")
      case True
      with pending_next_le [of s1 "pending s1"] show ?thesis by simp
    next
      case False
      with pe None have "CurTok s1 = CurTok s" by simp
      with assms have "pending (snd (getNextToken s1)) < pending s1" by (intro pending_eat) simp
      with pe show ?thesis by simp
    qed
    with h show ?thesis by blast
  qed
qed

lemma MainLoop_le: "MainLoop n s = Some r \<Longrightarrow> n \<le> m \<Longrightarrow> MainLoop m s = Some r"
  using MainLoop_fuel [of n s r "m - n"] by simp

lemma MainLoop_returns: "\<exists>n r. MainLoop n s = Some r"
proof (induction "pending s" arbitrary: s rule: less_induct)
  case less
  define s1 where "s1 = fprintf_stderr ''> '' s"
  have ps1: "pending s1 = pending s" "CurTok s1 = CurTok s" by (simp_all add: s1_def)
  consider (eof) "CurTok s1 = tok_eof" | (semi) "CurTok s1 \<noteq> tok_eof" "CurTok s1 = 59"
    | (def) "CurTok s1 \<noteq> tok_eof" "CurTok s1 \<noteq> 59" "CurTok s1 = tok_def"
    | (ext) "CurTok s1 \<noteq> tok_eof" "CurTok s1 \<noteq> 59" "CurTok s1 \<noteq> tok_def" "CurTok s1 = tok_extern"
    | (expr) "CurTok s1 \<noteq> tok_eof" "CurTok s1 \<noteq> 59" "CurTok s1 \<noteq> tok_def" "CurTok s1 \<noteq> tok_extern"
    by blast
  then show ?case
  proof cases
    case eof
    then have "MainLoop (Suc 0) s = Some s1"
      by (simp add: MainLoop.simps s1_def [symmetric] Let_def)
    then show ?thesis by blast
  next
    case semi
    let ?s2 = "snd (getNextToken s1)"
    have "pending ?s2 < pending s" using pending_eat [of s1] semi ps1 by simp
    from less [OF this] obtain n r where "MainLoop n ?s2 = Some r" by blast
    with semi have "MainLoop (Suc n) s = Some r"
      by (simp add: MainLoop.simps s1_def [symmetric] Let_def)
    then show ?thesis by blast
  next
    case def
    from HandleDefinition_returns [OF def(1)] obtain n1 s2
      where h: "HandleDefinition n1 s1 = Some s2" and lt: "pending s2 < pending s1" by blast
    from less [of s2] lt ps1 obtain n2 r where l: "MainLoop n2 s2 = Some r" by auto
    let ?n = "max n1 n2"
    have "HandleDefinition ?n s1 = Some s2"
      using HandleDefinition_fuel [OF h, of "?n - n1"] by simp
    moreover have "MainLoop ?n s2 = Some r" using MainLoop_le [OF l, of ?n] by simp
    ultimately have "MainLoop (Suc ?n) s = Some r"
      using def by (simp add: MainLoop.simps s1_def [symmetric] Let_def)
    then show ?thesis by blast
  next
    case ext
    have "pending (HandleExtern s1) < pending s" using HandleExtern_pending [OF ext(1)] ps1 by simp
    from less [OF this] obtain n r where "MainLoop n (HandleExtern s1) = Some r" by blast
    with ext have "MainLoop (Suc n) s = Some r"
      by (simp add: MainLoop.simps s1_def [symmetric] Let_def)
    then show ?thesis by blast
  next
    case expr
    from HandleTopLevelExpression_returns [OF expr(1)] obtain n1 s2
      where h: "HandleTopLevelExpression n1 s1 = Some s2" and lt: "pending s2 < pending s1" by blast
    from less [of s2] lt ps1 obtain n2 r where l: "MainLoop n2 s2 = Some r" by auto
    let ?n = "max n1 n2"
    have "HandleTopLevelExpression ?n s1 = Some s2"
      using HandleTopLevelExpression_fuel [OF h, of "?n - n1"] by simp
    moreover have "MainLoop ?n s2 = Some r" using MainLoop_le [OF l, of ?n] by simp
    ultimately have "MainLoop (Suc ?n) s = Some r"
      using expr by (simp add: MainLoop.simps s1_def [symmetric] Let_def)
    then show ?thesis by blast
  qed
qed

theorem main_returns: "\<exists>n r. main n inp = Some r"
  unfolding main_def by (rule MainLoop_returns)

subsection \<open>Operator precedence\<close>

lemma GetTokPrecedence_CurTok: "CurTok (snd (GetTokPrecedence s)) = CurTok s"
  by (simp add: GetTokPrecedence_def split: prod.splits)

text \<open>
  Claim C1.  On the input \<^verbatim>\<open>1 + 2 * 3\<close> \<^verbatim>\<open>ParseExpression\<close> returns the tree
  \<open>+(1, *(2, 3))\<close>, and on \<^verbatim>\<open>1 * 2 + 3\<close> the tree \<open>+(*(1, 2), 3)\<close>: the operator \<^verbatim>\<open>*\<close>
  ends below \<^verbatim>\<open>+\<close> in both orders.  The parser is run in the state \<^verbatim>\<open>main\<close> sets up
  (operators installed, first token primed); a depth bound of 5 is enough, every larger
  one gives the same result, and the whole input is consumed (the lookahead left is
  \<^verbatim>\<open>tok_eof\<close>).  In that state the precedence of \<^verbatim>\<open>*\<close> is 40 and that of \<^verbatim>\<open>+\<close> is 20,
  whatever the input.
\<close>

theorem C1_precedence:
  "map_option (\<lambda>(r, s). (r, CurTok s)) (ParseExpression (5 + k) (startup ''1 + 2 * 3'')) =
     Some (Some (BinaryExprAST (CHR ''+'') (NumberExprAST 1)
                   (BinaryExprAST (CHR ''*'') (NumberExprAST 2) (NumberExprAST 3))), tok_eof)
   \<and> map_option (\<lambda>(r, s). (r, CurTok s)) (ParseExpression (5 + k) (startup ''1 * 2 + 3'')) =
     Some (Some (BinaryExprAST (CHR ''+'')
                   (BinaryExprAST (CHR ''*'') (NumberExprAST 1) (NumberExprAST 2))
                   (NumberExprAST 3)), tok_eof)
   \<and> fst (GetTokPrecedence ((startup inp)\<lparr>CurTok := of_char (CHR ''*'')\<rparr>)) = 40
   \<and> fst (GetTokPrecedence ((startup inp)\<lparr>CurTok := of_char (CHR ''+'')\<rparr>)) = 20"
proof -
  have p: "fst (GetTokPrecedence ((startup inp)\<lparr>CurTok := of_char (CHR ''*'')\<rparr>)) = 40"
    "fst (GetTokPrecedence ((startup inp)\<lparr>CurTok := of_char (CHR ''+'')\<rparr>)) = 20"
  proof -
    have c: "char_of (42 :: int) = CHR ''*''" "char_of (43 :: int) = CHR ''+''" by code_simp+
    show "fst (GetTokPrecedence ((startup inp)\<lparr>CurTok := of_char (CHR ''*'')\<rparr>)) = 40"
      by (simp add: GetTokPrecedence_def BinopPrecedence_startup map_index_def isascii_def c)
    show "fst (GetTokPrecedence ((startup inp)\<lparr>CurTok := of_char (CHR ''+'')\<rparr>)) = 20"
      by (simp add: GetTokPrecedence_def BinopPrecedence_startup map_index_def isascii_def c)
  qed
  have 1: "map_option (\<lambda>(r, s). (r, CurTok s)) (ParseExpression 5 (startup ''1 + 2 * 3'')) =
     Some (Some (BinaryExprAST (CHR ''+'') (NumberExprAST 1)
                   (BinaryExprAST (CHR ''*'') (NumberExprAST 2) (NumberExprAST 3))), tok_eof)"
    by code_simp
  have 2: "map_option (\<lambda>(r, s). (r, CurTok s)) (ParseExpression 5 (startup ''1 * 2 + 3'')) =
     Some (Some (BinaryExprAST (CHR ''+'')
                   (BinaryExprAST (CHR ''*'') (NumberExprAST 1) (NumberExprAST 2))
                   (NumberExprAST 3)), tok_eof)"
    by code_simp
  from 1 obtain r1 where r1: "ParseExpression 5 (startup ''1 + 2 * 3'') = Some r1" by blast
  from 2 obtain r2 where r2: "ParseExpression 5 (startup ''1 * 2 + 3'') = Some r2" by blast
  show ?thesis
    using ParseExpression_fuel [OF r1, of k] ParseExpression_fuel [OF r2, of k] r1 r2 1 2 p
    by simp
qed


lemma GetTokPrecedence_again:
  "fst (GetTokPrecedence (snd (GetTokPrecedence s))) = fst (GetTokPrecedence s)"
  by (auto simp: GetTokPrecedence_def map_index_def split: option.splits)

text \<open>
  \<^verbatim>\<open>ParseBinOpRHS\<close> leaves its loop only at a lookahead whose precedence is below the
  minimal precedence it was called with.
\<close>

lemma ParseBinOpRHS_stops:
  "ParseBinOpRHS n q l s = Some (Some r, s') \<Longrightarrow> fst (GetTokPrecedence s') < q"
proof (induction n arbitrary: q l s)
  case 0
  then show ?case by (simp add: ParseBinOpRHS.simps)
next
  case (Suc n)
  obtain TokPrec s1 where g: "GetTokPrecedence s = (TokPrec, s1)" by (cases "GetTokPrecedence s")
  show ?case
  proof (cases "TokPrec < q")
    case True
    with Suc.prems g have "s' = s1" by (simp add: ParseBinOpRHS.simps)
    with GetTokPrecedence_again [of s] g True show ?thesis by simp
  next
    case False
    with Suc.prems g show ?thesis
      by (subst (asm) ParseBinOpRHS.simps)
         (auto simp: Let_def split: option.splits prod.splits if_splits dest: Suc.IH)
  qed
qed

text \<open>
  Claim C2.  On the input \<^verbatim>\<open>1 - 2 - 3\<close> \<^verbatim>\<open>ParseExpression\<close> returns \<open>-(-(1, 2), 3)\<close>;
  \<^verbatim>\<open>1 - 2 - 3 - 4\<close>, \<^verbatim>\<open>1 + 2 - 3\<close> and \<^verbatim>\<open>1 * 2 * 3\<close> nest to the left alike, and in
  \<^verbatim>\<open>1 - 2 * 3 - 4\<close> the second \<^verbatim>\<open>-\<close> is applied to \<open>1 - 2 * 3\<close>, not absorbed behind the
  product.  The law behind it has three parts, each for every state of the parser.
  When the operator after the right operand does not bind strictly tighter than the
  current one (\<^verbatim>\<open>TokPrec < NextPrec\<close> is false, as it is at equal precedence), the
  right-hand side is the primary alone: it is merged with the left-hand side and the
  loop goes on with the merged node as its left-hand side.  When it binds strictly
  tighter, the right-hand side is what \<^verbatim>\<open>ParseBinOpRHS\<close> returns for the minimal
  precedence \<^verbatim>\<open>TokPrec + 1\<close>, and the lookahead this call leaves has a precedence of
  \<^verbatim>\<open>TokPrec\<close> at most, so an operator of the current precedence is never part of the
  right-hand side: the merge comes first and the enclosing loop takes that operator.
  In general a call of \<^verbatim>\<open>ParseBinOpRHS\<close> that succeeds leaves a lookahead whose
  precedence is below the minimal precedence of the call.
\<close>

theorem C2_left_associative:
  "map_option (\<lambda>(r, s). (r, CurTok s)) (ParseExpression (5 + k) (startup ''1 - 2 - 3'')) =
     Some (Some (BinaryExprAST (CHR ''-'')
                   (BinaryExprAST (CHR ''-'') (NumberExprAST 1) (NumberExprAST 2))
                   (NumberExprAST 3)), tok_eof)
   \<and> map_option (\<lambda>(r, s). (r, CurTok s)) (ParseExpression (6 + k) (startup ''1 - 2 * 3 - 4'')) =
     Some (Some (BinaryExprAST (CHR ''-'')
                   (BinaryExprAST (CHR ''-'') (NumberExprAST 1)
                      (BinaryExprAST (CHR ''*'') (NumberExprAST 2) (NumberExprAST 3)))
                   (NumberExprAST 4)), tok_eof)
   \<and> map_option (\<lambda>(r, s). (r, CurTok s)) (ParseExpression (6 + k) (startup ''1 - 2 - 3 - 4'')) =
     Some (Some (BinaryExprAST (CHR ''-'')
                   (BinaryExprAST (CHR ''-'')
                      (BinaryExprAST (CHR ''-'') (NumberExprAST 1) (NumberExprAST 2))
                      (NumberExprAST 3))
                   (NumberExprAST 4)), tok_eof)
   \<and> map_option (\<lambda>(r, s). (r, CurTok s)) (ParseExpression (5 + k) (startup ''1 + 2 - 3'')) =
     Some (Some (BinaryExprAST (CHR ''-'')
                   (BinaryExprAST (CHR ''+'') (NumberExprAST 1) (NumberExprAST 2))
                   (NumberExprAST 3)), tok_eof)
   \<and> map_option (\<lambda>(r, s). (r, CurTok s)) (ParseExpression (5 + k) (startup ''1 * 2 * 3'')) =
     Some (Some (BinaryExprAST (CHR ''*'')
                   (BinaryExprAST (CHR ''*'') (NumberExprAST 1) (NumberExprAST 2))
                   (NumberExprAST 3)), tok_eof)
   \<and> (ExprPrec \<le> fst (GetTokPrecedence s)
        \<and> ParsePrimary n (snd (getNextToken (snd (GetTokPrecedence s)))) = Some (Some RHS, s3)
        \<and> fst (GetTokPrecedence s3) \<le> fst (GetTokPrecedence s)
      \<longrightarrow> ParseBinOpRHS (Suc n) ExprPrec LHS s =
            ParseBinOpRHS n ExprPrec (BinaryExprAST (char_of (CurTok s)) LHS RHS)
              (snd (GetTokPrecedence s3)))
   \<and> (ExprPrec \<le> fst (GetTokPrecedence s)
        \<and> ParsePrimary n (snd (getNextToken (snd (GetTokPrecedence s)))) = Some (Some RHS, s3)
        \<and> fst (GetTokPrecedence s) < fst (GetTokPrecedence s3)
        \<and> ParseBinOpRHS n (fst (GetTokPrecedence s) + 1) RHS (snd (GetTokPrecedence s3)) =
            Some (Some RHS', s5)
      \<longrightarrow> fst (GetTokPrecedence s5) \<le> fst (GetTokPrecedence s)
          \<and> ParseBinOpRHS (Suc n) ExprPrec LHS s =
              ParseBinOpRHS n ExprPrec (BinaryExprAST (char_of (CurTok s)) LHS RHS') s5)
   \<and> (ParseBinOpRHS m q l t = Some (Some r, t') \<longrightarrow> fst (GetTokPrecedence t') < q)"
proof -
  have e0: "map_option (\<lambda>(r, s). (r, CurTok s)) (ParseExpression 5 (startup ''1 - 2 - 3'')) =
     Some (Some (BinaryExprAST (CHR ''-'')
                   (BinaryExprAST (CHR ''-'') (NumberExprAST 1) (NumberExprAST 2))
                   (NumberExprAST 3)), tok_eof)"
    by code_simp
  from e0 obtain r0 where r0: "ParseExpression 5 (startup ''1 - 2 - 3'') = Some r0" by blast
  have E0: "map_option (\<lambda>(r, s). (r, CurTok s)) (ParseExpression (5 + k) (startup ''1 - 2 - 3'')) =
     Some (Some (BinaryExprAST (CHR ''-'')
                   (BinaryExprAST (CHR ''-'') (NumberExprAST 1) (NumberExprAST 2))
                   (NumberExprAST 3)), tok_eof)"
    using ParseExpression_fuel [OF r0, of k] r0 e0 by simp
  have e1: "map_option (\<lambda>(r, s). (r, CurTok s)) (ParseExpression 6 (startup ''1 - 2 * 3 - 4'')) =
     Some (Some (BinaryExprAST (CHR ''-'')
                   (BinaryExprAST (CHR ''-'') (NumberExprAST 1)
                      (BinaryExprAST (CHR ''*'') (NumberExprAST 2) (NumberExprAST 3)))
                   (NumberExprAST 4)), tok_eof)"
    by code_simp
  from e1 obtain r1 where r1: "ParseExpression 6 (startup ''1 - 2 * 3 - 4'') = Some r1" by blast
  have E1: "map_option (\<lambda>(r, s). (r, CurTok s)) (ParseExpression (6 + k) (startup ''1 - 2 * 3 - 4'')) =
     Some (Some (BinaryExprAST (CHR ''-'')
                   (BinaryExprAST (CHR ''-'') (NumberExprAST 1)
                      (BinaryExprAST (CHR ''*'') (NumberExprAST 2) (NumberExprAST 3)))
                   (NumberExprAST 4)), tok_eof)"
    using ParseExpression_fuel [OF r1, of k] r1 e1 by simp
  have e2: "map_option (\<lambda>(r, s). (r, CurTok s)) (ParseExpression 6 (startup ''1 - 2 - 3 - 4'')) =
     Some (Some (BinaryExprAST (CHR ''-'')
                   (BinaryExprAST (CHR ''-'')
                      (BinaryExprAST (CHR ''-'') (NumberExprAST 1) (NumberExprAST 2))
                      (NumberExprAST 3))
                   (NumberExprAST 4)), tok_eof)"
    by code_simp
  from e2 obtain r2 where r2: "ParseExpression 6 (startup ''1 - 2 - 3 - 4'') = Some r2" by blast
  have E2: "map_option (\<lambda>(r, s). (r, CurTok s)) (ParseExpression (6 + k) (startup ''1 - 2 - 3 - 4'')) =
     Some (Some (BinaryExprAST (CHR ''-'')
                   (BinaryExprAST (CHR ''-'')
                      (BinaryExprAST (CHR ''-'') (NumberExprAST 1) (NumberExprAST 2))
                      (NumberExprAST 3))
                   (NumberExprAST 4)), tok_eof)"
    using ParseExpression_fuel [OF r2, of k] r2 e2 by simp
  have e3: "map_option (\<lambda>(r, s). (r, CurTok s)) (ParseExpression 5 (startup ''1 + 2 - 3'')) =
     Some (Some (BinaryExprAST (CHR ''-'')
                   (BinaryExprAST (CHR ''+'') (NumberExprAST 1) (NumberExprAST 2))
                   (NumberExprAST 3)), tok_eof)"
    by code_simp
  from e3 obtain r3 where r3: "ParseExpression 5 (startup ''1 + 2 - 3'') = Some r3" by blast
  have E3: "map_option (\<lambda>(r, s). (r, CurTok s)) (ParseExpression (5 + k) (startup ''1 + 2 - 3'')) =
     Some (Some (BinaryExprAST (CHR ''-'')
                   (BinaryExprAST (CHR ''+'') (NumberExprAST 1) (NumberExprAST 2))
                   (NumberExprAST 3)), tok_eof)"
    using ParseExpression_fuel [OF r3, of k] r3 e3 by simp
  have e4: "map_option (\<lambda>(r, s). (r, CurTok s)) (ParseExpression 5 (startup ''1 * 2 * 3'')) =
     Some (Some (BinaryExprAST (CHR ''*'')
                   (BinaryExprAST (CHR ''*'') (NumberExprAST 1) (NumberExprAST 2))
                   (NumberExprAST 3)), tok_eof)"
    by code_simp
  from e4 obtain r4 where r4: "ParseExpression 5 (startup ''1 * 2 * 3'') = Some r4" by blast
  have E4: "map_option (\<lambda>(r, s). (r, CurTok s)) (ParseExpression (5 + k) (startup ''1 * 2 * 3'')) =
     Some (Some (BinaryExprAST (CHR ''*'')
                   (BinaryExprAST (CHR ''*'') (NumberExprAST 1) (NumberExprAST 2))
                   (NumberExprAST 3)), tok_eof)"
    using ParseExpression_fuel [OF r4, of k] r4 e4 by simp
  have A: "ParseBinOpRHS (Suc n) ExprPrec LHS s =
            ParseBinOpRHS n ExprPrec (BinaryExprAST (char_of (CurTok s)) LHS RHS)
              (snd (GetTokPrecedence s3))"
    if a: "ExprPrec \<le> fst (GetTokPrecedence s)
        \<and> ParsePrimary n (snd (getNextToken (snd (GetTokPrecedence s)))) = Some (Some RHS, s3)
        \<and> fst (GetTokPrecedence s3) \<le> fst (GetTokPrecedence s)"
  proof -
    obtain TokPrec s1 where g1: "GetTokPrecedence s = (TokPrec, s1)"
      by (cases "GetTokPrecedence s")
    obtain NextPrec s4 where g2: "GetTokPrecedence s3 = (NextPrec, s4)"
      by (cases "GetTokPrecedence s3")
    have c: "CurTok s1 = CurTok s" using GetTokPrecedence_CurTok [of s] g1 by simp
    show ?thesis
      using a g1 g2 c by (subst ParseBinOpRHS.simps) (simp add: Let_def)
  qed
  have B: "fst (GetTokPrecedence s5) \<le> fst (GetTokPrecedence s)
          \<and> ParseBinOpRHS (Suc n) ExprPrec LHS s =
              ParseBinOpRHS n ExprPrec (BinaryExprAST (char_of (CurTok s)) LHS RHS') s5"
    if b: "ExprPrec \<le> fst (GetTokPrecedence s)
        \<and> ParsePrimary n (snd (getNextToken (snd (GetTokPrecedence s)))) = Some (Some RHS, s3)
        \<and> fst (GetTokPrecedence s) < fst (GetTokPrecedence s3)
        \<and> ParseBinOpRHS n (fst (GetTokPrecedence s) + 1) RHS (snd (GetTokPrecedence s3)) =
            Some (Some RHS', s5)"
  proof
    from b have "ParseBinOpRHS n (fst (GetTokPrecedence s) + 1) RHS (snd (GetTokPrecedence s3)) =
        Some (Some RHS', s5)"
      by simp
    then have "fst (GetTokPrecedence s5) < fst (GetTokPrecedence s) + 1"
      by (rule ParseBinOpRHS_stops)
    then show "fst (GetTokPrecedence s5) \<le> fst (GetTokPrecedence s)" by simp
    obtain TokPrec s1 where g1: "GetTokPrecedence s = (TokPrec, s1)"
      by (cases "GetTokPrecedence s")
    obtain NextPrec s4 where g2: "GetTokPrecedence s3 = (NextPrec, s4)"
      by (cases "GetTokPrecedence s3")
    have c: "CurTok s1 = CurTok s" using GetTokPrecedence_CurTok [of s] g1 by simp
    show "ParseBinOpRHS (Suc n) ExprPrec LHS s =
        ParseBinOpRHS n ExprPrec (BinaryExprAST (char_of (CurTok s)) LHS RHS') s5"
      using b g1 g2 c by (subst ParseBinOpRHS.simps) (simp add: Let_def)
  qed
  have C: "fst (GetTokPrecedence t') < q" if "ParseBinOpRHS m q l t = Some (Some r, t')"
    using that by (rule ParseBinOpRHS_stops)
  from E0 E1 E2 E3 E4 A B C show ?thesis by blast
qed

theorem C2_left_associative_witness:
  "(0 :: int) \<le> fst (GetTokPrecedence after_first_operand)
   \<and> ParsePrimary 3 (snd (getNextToken (snd (GetTokPrecedence after_first_operand)))) =
       Some (Some (NumberExprAST 2), after_second_operand)
   \<and> fst (GetTokPrecedence after_second_operand) \<le> fst (GetTokPrecedence after_first_operand)
   \<and> ParseBinOpRHS (Suc 3) 0 (NumberExprAST 1) after_first_operand =
       ParseBinOpRHS 3 0
         (BinaryExprAST (char_of (CurTok after_first_operand)) (NumberExprAST 1) (NumberExprAST 2))
         (snd (GetTokPrecedence after_second_operand))
   \<and> map_option fst (ParseBinOpRHS (Suc 3) 0 (NumberExprAST 1) after_first_operand) =
       Some (Some (BinaryExprAST (CHR ''-'')
                     (BinaryExprAST (CHR ''-'') (NumberExprAST 1) (NumberExprAST 2))
                     (NumberExprAST 3)))
   \<and> fst (GetTokPrecedence after_first_operand) = 20
   \<and> fst (GetTokPrecedence after_second_operand) = 20
   \<and> (0 :: int) \<le> fst (GetTokPrecedence mixed_first_operand)
   \<and> ParsePrimary 3 (snd (getNextToken (snd (GetTokPrecedence mixed_first_operand)))) =
       Some (Some (NumberExprAST 2), mixed_second_operand)
   \<and> fst (GetTokPrecedence mixed_first_operand) = 20
   \<and> fst (GetTokPrecedence mixed_second_operand) = 40
   \<and> ParseBinOpRHS 3 (20 + 1) (NumberExprAST 2) (snd (GetTokPrecedence mixed_second_operand)) =
       Some (Some (BinaryExprAST (CHR ''*'') (NumberExprAST 2) (NumberExprAST 3)),
             mixed_after_product)
   \<and> fst (GetTokPrecedence mixed_after_product) = 20
   \<and> CurTok mixed_after_product = 45
   \<and> ParseBinOpRHS (Suc 3) 0 (NumberExprAST 1) mixed_first_operand =
       ParseBinOpRHS 3 0
         (BinaryExprAST (char_of (CurTok mixed_first_operand)) (NumberExprAST 1)
            (BinaryExprAST (CHR ''*'') (NumberExprAST 2) (NumberExprAST 3)))
         mixed_after_product
   \<and> map_option fst (ParseBinOpRHS (Suc 3) 0 (NumberExprAST 1) mixed_first_operand) =
       Some (Some (BinaryExprAST (CHR ''-'')
                     (BinaryExprAST (CHR ''-'') (NumberExprAST 1)
                        (BinaryExprAST (CHR ''*'') (NumberExprAST 2) (NumberExprAST 3)))
                     (NumberExprAST 4)))
   \<and> fst (GetTokPrecedence mixed_after_product) < 20 + 1"
proof -
  have h1: "(0 :: int) \<le> fst (GetTokPrecedence after_first_operand)" by code_simp
  have h2: "ParsePrimary 3 (snd (getNextToken (snd (GetTokPrecedence after_first_operand)))) =
       Some (Some (NumberExprAST 2), after_second_operand)" by code_simp
  have h3: "fst (GetTokPrecedence after_second_operand) \<le> fst (GetTokPrecedence after_first_operand)"
    by code_simp
  have h4: "map_option fst (ParseBinOpRHS (Suc 3) 0 (NumberExprAST 1) after_first_operand) =
       Some (Some (BinaryExprAST (CHR ''-'')
                     (BinaryExprAST (CHR ''-'') (NumberExprAST 1) (NumberExprAST 2))
                     (NumberExprAST 3)))" by code_simp
  have h5: "fst (GetTokPrecedence after_first_operand) = 20" by code_simp
  have h6: "fst (GetTokPrecedence after_second_operand) = 20" by code_simp
  have m1: "fst (GetTokPrecedence mixed_first_operand) = 20" by code_simp
  have m2: "ParsePrimary 3 (snd (getNextToken (snd (GetTokPrecedence mixed_first_operand)))) =
       Some (Some (NumberExprAST 2), mixed_second_operand)" by code_simp
  have m3: "fst (GetTokPrecedence mixed_second_operand) = 40" by code_simp
  have m4: "ParseBinOpRHS 3 (20 + 1) (NumberExprAST 2) (snd (GetTokPrecedence mixed_second_operand)) =
       Some (Some (BinaryExprAST (CHR ''*'') (NumberExprAST 2) (NumberExprAST 3)),
             mixed_after_product)" by code_simp
  have m5: "fst (GetTokPrecedence mixed_after_product) = 20" by code_simp
  have m6: "CurTok mixed_after_product = 45" by code_simp
  have m7: "map_option fst (ParseBinOpRHS (Suc 3) 0 (NumberExprAST 1) mixed_first_operand) =
       Some (Some (BinaryExprAST (CHR ''-'')
                     (BinaryExprAST (CHR ''-'') (NumberExprAST 1)
                        (BinaryExprAST (CHR ''*'') (NumberExprAST 2) (NumberExprAST 3)))
                     (NumberExprAST 4)))" by code_simp
  from C2_left_associative [where ExprPrec = 0 and s = after_first_operand and n = 3
      and RHS = "NumberExprAST 2" and ?s3.0 = after_second_operand and LHS = "NumberExprAST 1"]
    h1 h2 h3
  have a: "ParseBinOpRHS (Suc 3) 0 (NumberExprAST 1) after_first_operand =
       ParseBinOpRHS 3 0
         (BinaryExprAST (char_of (CurTok after_first_operand)) (NumberExprAST 1) (NumberExprAST 2))
         (snd (GetTokPrecedence after_second_operand))"
    by blast
  have m4': "ParseBinOpRHS 3 (fst (GetTokPrecedence mixed_first_operand) + 1) (NumberExprAST 2)
        (snd (GetTokPrecedence mixed_second_operand)) =
       Some (Some (BinaryExprAST (CHR ''*'') (NumberExprAST 2) (NumberExprAST 3)),
             mixed_after_product)"
    unfolding m1 by (rule m4)
  have lt: "fst (GetTokPrecedence mixed_first_operand) < fst (GetTokPrecedence mixed_second_operand)"
    unfolding m1 m3 by simp
  have ge: "(0 :: int) \<le> fst (GetTokPrecedence mixed_first_operand)" unfolding m1 by simp
  from C2_left_associative [where ExprPrec = 0 and s = mixed_first_operand and n = 3
      and RHS = "NumberExprAST 2" and ?s3.0 = mixed_second_operand and LHS = "NumberExprAST 1"
      and RHS' = "BinaryExprAST (CHR ''*'') (NumberExprAST 2) (NumberExprAST 3)"
      and ?s5.0 = mixed_after_product]
    ge m2 lt m4'
  have b: "ParseBinOpRHS (Suc 3) 0 (NumberExprAST 1) mixed_first_operand =
       ParseBinOpRHS 3 0
         (BinaryExprAST (char_of (CurTok mixed_first_operand)) (NumberExprAST 1)
            (BinaryExprAST (CHR ''*'') (NumberExprAST 2) (NumberExprAST 3)))
         mixed_after_product"
    by blast
  from C2_left_associative [where m = 3 and q = "20 + 1" and l = "NumberExprAST 2"
      and t = "snd (GetTokPrecedence mixed_second_operand)"
      and r = "BinaryExprAST (CHR ''*'') (NumberExprAST 2) (NumberExprAST 3)"
      and t' = mixed_after_product] m4
  have c: "fst (GetTokPrecedence mixed_after_product) < 20 + 1" by blast
  from h1 h2 h3 h4 h5 h6 a ge m1 m2 m3 m4 m5 m6 m7 b c show ?thesis by blast
qed

subsection \<open>Characters without a declared precedence\<close>

text \<open>
  Claim C3.  \<^verbatim>\<open>main\<close> installs the table \<open><\<close> 10, \<open>+\<close> 20, \<open>-\<close> 20, \<open>*\<close> 40.  In every
  state whose table declares exactly these (entries of value 0, which a lookup through
  \<^verbatim>\<open>operator[]\<close> leaves behind, count as undeclared, as \<^verbatim>\<open>GetTokPrecedence\<close> treats
  them), a lookahead other than these four characters has precedence \<open>-1\<close>, and
  \<^verbatim>\<open>ParseBinOpRHS\<close>, entered with any minimal precedence \<open>0\<close> or more, returns its
  left-hand side at once and leaves the lookahead in place.  So \<^verbatim>\<open>a / b\<close> parses to the
  variable \<open>a\<close> alone, with \<^verbatim>\<open>/\<close> (47) left as the lookahead.
\<close>

theorem C3_undeclared_operator:
  "BinopPrecedence (startup inp) =
     [(CHR ''<'', 10), (CHR ''+'', 20), (CHR ''-'', 20), (CHR ''*'', 40)]
   \<and> (filter (\<lambda>(c, v). 0 < v) (BinopPrecedence s) =
         [(CHR ''<'', 10), (CHR ''+'', 20), (CHR ''-'', 20), (CHR ''*'', 40)]
        \<and> CurTok s \<notin> {60, 43, 45, 42} \<and> 0 \<le> ExprPrec
      \<longrightarrow> fst (GetTokPrecedence s) = - 1
          \<and> ParseBinOpRHS (Suc n) ExprPrec LHS s = Some (Some LHS, snd (GetTokPrecedence s))
          \<and> CurTok (snd (GetTokPrecedence s)) = CurTok s)
   \<and> map_option (\<lambda>(r, s). (r, CurTok s)) (ParseExpression (3 + k) (startup ''a / b'')) =
       Some (Some (VariableExprAST ''a''), 47)"
proof (intro conjI impI)
  show "BinopPrecedence (startup inp) =
     [(CHR ''<'', 10), (CHR ''+'', 20), (CHR ''-'', 20), (CHR ''*'', 40)]"
    by (rule BinopPrecedence_startup)
next
  have 1: "map_option (\<lambda>(r, s). (r, CurTok s)) (ParseExpression 3 (startup ''a / b'')) =
       Some (Some (VariableExprAST ''a''), 47)"
    by code_simp
  from 1 obtain r1 where r1: "ParseExpression 3 (startup ''a / b'') = Some r1" by blast
  show "map_option (\<lambda>(r, s). (r, CurTok s)) (ParseExpression (3 + k) (startup ''a / b'')) =
       Some (Some (VariableExprAST ''a''), 47)"
    using ParseExpression_fuel [OF r1, of k] r1 1 by simp
next
  assume a: "filter (\<lambda>(c, v). 0 < v) (BinopPrecedence s) =
         [(CHR ''<'', 10), (CHR ''+'', 20), (CHR ''-'', 20), (CHR ''*'', 40)]
        \<and> CurTok s \<notin> {60, 43, 45, 42} \<and> 0 \<le> ExprPrec"
  show m1: "fst (GetTokPrecedence s) = - 1"
  proof (cases "isascii (CurTok s)")
    case False
    then show ?thesis by (simp add: GetTokPrecedence_def)
  next
    case True
    define c :: char where "c = char_of (CurTok s)"
    have oc: "of_char c = CurTok s" using True by (simp add: c_def isascii_def)
    have ne: "c \<notin> {CHR ''<'', CHR ''+'', CHR ''-'', CHR ''*''}"
    proof
      assume "c \<in> {CHR ''<'', CHR ''+'', CHR ''-'', CHR ''*''}"
      then have "(of_char c :: int) \<in> {60, 43, 45, 42}" by auto
      with oc a show False by simp
    qed
    have "v \<le> 0" if "map_of (BinopPrecedence s) c = Some v" for v
    proof (rule ccontr)
      assume "\<not> v \<le> 0"
      with that have "(c, v) \<in> set (filter (\<lambda>(c, v). 0 < v) (BinopPrecedence s))"
        by (auto dest: map_of_SomeD)
      with a ne show False by auto
    qed
    then show ?thesis
      using True
      by (auto simp: GetTokPrecedence_def map_index_def c_def [symmetric] split: option.splits)
  qed
  show "ParseBinOpRHS (Suc n) ExprPrec LHS s = Some (Some LHS, snd (GetTokPrecedence s))"
  proof -
    obtain TokPrec s1 where g: "GetTokPrecedence s = (TokPrec, s1)"
      by (cases "GetTokPrecedence s")
    with m1 have "TokPrec = - 1" by simp
    with a g show ?thesis by (subst ParseBinOpRHS.simps) simp
  qed
  show "CurTok (snd (GetTokPrecedence s)) = CurTok s"
    by (rule GetTokPrecedence_CurTok)
qed

theorem C3_undeclared_operator_witness:
  "filter (\<lambda>(c, v). 0 < v) (BinopPrecedence (startup ''/ b'')) =
         [(CHR ''<'', 10), (CHR ''+'', 20), (CHR ''-'', 20), (CHR ''*'', 40)]
   \<and> CurTok (startup ''/ b'') = 47
   \<and> CurTok (startup ''/ b'') \<notin> {60, 43, 45, 42} \<and> (0 :: int) \<le> 0
   \<and> fst (GetTokPrecedence (startup ''/ b'')) = - 1
   \<and> ParseBinOpRHS (Suc 0) 0 (VariableExprAST ''a'') (startup ''/ b'') =
       Some (Some (VariableExprAST ''a''), snd (GetTokPrecedence (startup ''/ b'')))
   \<and> CurTok (snd (GetTokPrecedence (startup ''/ b''))) = 47"
proof -
  have h1: "filter (\<lambda>(c, v). 0 < v) (BinopPrecedence (startup ''/ b'')) =
         [(CHR ''<'', 10), (CHR ''+'', 20), (CHR ''-'', 20), (CHR ''*'', 40)]"
    by code_simp
  have h2: "CurTok (startup ''/ b'') = 47" by code_simp
  have h3: "CurTok (startup ''/ b'') \<notin> {60, 43, 45, 42}" unfolding h2 by simp
  from C3_undeclared_operator [where s = "startup ''/ b''" and ExprPrec = 0 and n = 0
      and LHS = "VariableExprAST ''a''"] h1 h3
  have "fst (GetTokPrecedence (startup ''/ b'')) = - 1
      \<and> ParseBinOpRHS (Suc 0) 0 (VariableExprAST ''a'') (startup ''/ b'') =
          Some (Some (VariableExprAST ''a''), snd (GetTokPrecedence (startup ''/ b'')))
      \<and> CurTok (snd (GetTokPrecedence (startup ''/ b''))) = CurTok (startup ''/ b'')"
    by simp
  with h1 h2 h3 show ?thesis by simp
qed

subsection \<open>Identifiers and calls\<close>



subsection \<open>Parentheses\<close>

text \<open>
  Claim C10.  Whenever \<^verbatim>\<open>ParseParenExpr\<close> succeeds, the node it returns is the very node
  \<^verbatim>\<open>ParseExpression\<close> returned for the text after the \<^verbatim>\<open>(\<close>; that parse stopped at a
  \<^verbatim>\<open>)\<close> (41), and the only further effect of \<^verbatim>\<open>ParseParenExpr\<close> is to consume this \<^verbatim>\<open>)\<close>.
  No node stands for the parentheses: \<^verbatim>\<open>(1 + 2)\<close> parses to the tree of \<^verbatim>\<open>1 + 2\<close>,
  \<^verbatim>\<open>((x))\<close> to the variable \<open>x\<close>, and in \<^verbatim>\<open>(1 + 2) * 3\<close> the left operand of \<^verbatim>\<open>*\<close> is the
  tree of \<^verbatim>\<open>1 + 2\<close>.
\<close>

theorem C10_parentheses_transparent:
  "(ParseParenExpr (Suc n) s = Some (Some V, s')
      \<longrightarrow> (\<exists>s2. ParseExpression n (snd (getNextToken s)) = Some (Some V, s2)
                 \<and> CurTok s2 = 41 \<and> s' = snd (getNextToken s2)))
   \<and> map_option fst (ParseExpression (6 + k) (startup ''(1 + 2)'')) =
       Some (Some (BinaryExprAST (CHR ''+'') (NumberExprAST 1) (NumberExprAST 2)))
   \<and> map_option fst (ParseExpression (6 + k) (startup ''1 + 2'')) =
       Some (Some (BinaryExprAST (CHR ''+'') (NumberExprAST 1) (NumberExprAST 2)))
   \<and> map_option fst (ParseExpression (9 + k) (startup ''((x))'')) = Some (Some (VariableExprAST ''x''))
   \<and> map_option fst (ParseExpression (7 + k) (startup ''(1 + 2) * 3'')) =
       Some (Some (BinaryExprAST (CHR ''*'')
                     (BinaryExprAST (CHR ''+'') (NumberExprAST 1) (NumberExprAST 2))
                     (NumberExprAST 3)))"
proof (intro conjI impI)
  assume "ParseParenExpr (Suc n) s = Some (Some V, s')"
  then show "\<exists>s2. ParseExpression n (snd (getNextToken s)) = Some (Some V, s2)
                 \<and> CurTok s2 = 41 \<and> s' = snd (getNextToken s2)"
    by (subst (asm) ParseParenExpr.simps)
       (auto simp: Let_def LogError_def split: option.splits prod.splits if_splits)
next
  have 1: "map_option fst (ParseExpression 6 (startup ''(1 + 2)'')) =
       Some (Some (BinaryExprAST (CHR ''+'') (NumberExprAST 1) (NumberExprAST 2)))"
    by code_simp
  from 1 obtain r where r: "ParseExpression 6 (startup ''(1 + 2)'') = Some r" by blast
  show "map_option fst (ParseExpression (6 + k) (startup ''(1 + 2)'')) =
       Some (Some (BinaryExprAST (CHR ''+'') (NumberExprAST 1) (NumberExprAST 2)))"
    using ParseExpression_fuel [OF r, of k] r 1 by simp
next
  have 1: "map_option fst (ParseExpression 6 (startup ''1 + 2'')) =
       Some (Some (BinaryExprAST (CHR ''+'') (NumberExprAST 1) (NumberExprAST 2)))"
    by code_simp
  from 1 obtain r where r: "ParseExpression 6 (startup ''1 + 2'') = Some r" by blast
  show "map_option fst (ParseExpression (6 + k) (startup ''1 + 2'')) =
       Some (Some (BinaryExprAST (CHR ''+'') (NumberExprAST 1) (NumberExprAST 2)))"
    using ParseExpression_fuel [OF r, of k] r 1 by simp
next
  have 1: "map_option fst (ParseExpression 9 (startup ''((x))'')) =
       Some (Some (VariableExprAST ''x''))"
    by code_simp
  from 1 obtain r where r: "ParseExpression 9 (startup ''((x))'') = Some r" by blast
  show "map_option fst (ParseExpression (9 + k) (startup ''((x))'')) =
       Some (Some (VariableExprAST ''x''))"
    using ParseExpression_fuel [OF r, of k] r 1 by simp
next
  have 1: "map_option fst (ParseExpression 7 (startup ''(1 + 2) * 3'')) =
       Some (Some (BinaryExprAST (CHR ''*'')
                     (BinaryExprAST (CHR ''+'') (NumberExprAST 1) (NumberExprAST 2))
                     (NumberExprAST 3)))"
    by code_simp
  from 1 obtain r where r: "ParseExpression 7 (startup ''(1 + 2) * 3'') = Some r" by blast
  show "map_option fst (ParseExpression (7 + k) (startup ''(1 + 2) * 3'')) =
       Some (Some (BinaryExprAST (CHR ''*'')
                     (BinaryExprAST (CHR ''+'') (NumberExprAST 1) (NumberExprAST 2))
                     (NumberExprAST 3)))"
    using ParseExpression_fuel [OF r, of k] r 1 by simp
qed

theorem C10_parentheses_transparent_witness:
  "ParseParenExpr (Suc 4) (startup ''(1 + 2)'') =
     Some (Some (BinaryExprAST (CHR ''+'') (NumberExprAST 1) (NumberExprAST 2)),
           \<lparr>stdin = [], LastChar = EOF, IdentifierStr = [], NumVal = 2, CurTok = tok_eof,
            BinopPrecedence =
              [(CHR ''<'', 10), (CHR ''+'', 20), (CHR ''-'', 20), (CHR ''*'', 40), (CHR '')'', 0)],
            stderr = [''Bologna v0.1.0'' @ [CHR 0x0A], ''> '']\<rparr>)
   \<and> (\<exists>s2. ParseExpression 4 (snd (getNextToken (startup ''(1 + 2)''))) =
              Some (Some (BinaryExprAST (CHR ''+'') (NumberExprAST 1) (NumberExprAST 2)), s2)
            \<and> CurTok s2 = 41
            \<and> \<lparr>stdin = [], LastChar = EOF, IdentifierStr = [], NumVal = 2, CurTok = tok_eof,
               BinopPrecedence =
                 [(CHR ''<'', 10), (CHR ''+'', 20), (CHR ''-'', 20), (CHR ''*'', 40),
                  (CHR '')'', 0)],
               stderr = [''Bologna v0.1.0'' @ [CHR 0x0A], ''> '']\<rparr> = snd (getNextToken s2))"
proof -
  have h: "ParseParenExpr (Suc 4) (startup ''(1 + 2)'') =
     Some (Some (BinaryExprAST (CHR ''+'') (NumberExprAST 1) (NumberExprAST 2)),
           \<lparr>stdin = [], LastChar = EOF, IdentifierStr = [], NumVal = 2, CurTok = tok_eof,
            BinopPrecedence =
              [(CHR ''<'', 10), (CHR ''+'', 20), (CHR ''-'', 20), (CHR ''*'', 40), (CHR '')'', 0)],
            stderr = [''Bologna v0.1.0'' @ [CHR 0x0A], ''> '']\<rparr>)"
    by code_simp
  from C10_parentheses_transparent [where n = 4 and s = "startup ''(1 + 2)''"] h
  show ?thesis by blast
qed

subsection \<open>Prototypes\<close>





subsection \<open>Whitespace, comments and the end of input\<close>

lemma gettok_at_EOF: "LastChar s = EOF \<Longrightarrow> gettok s = (tok_eof, s)"
  by (subst gettok.simps, subst skip_whitespace.simps)
     (simp add: isspace_def isalpha_def isdigit_def Let_def)

lemma gettok_eof_LastChar: "fst (gettok s0) = tok_eof \<Longrightarrow> LastChar (snd (gettok s0)) = EOF"
proof (induction s0 rule: gettok.induct)
  case (1 s0)
  define s where "s = skip_whitespace s0"
  show ?case
    using "1.prems" "1.IH" [of s]
    apply (subst (asm) gettok.simps)
    apply (subst gettok.simps)
    apply (auto simp: Let_def s_def [symmetric] split: prod.splits if_splits)
    done
qed

lemma of_char_eq_numeral:
  "(of_char c :: int) = 10 \<longleftrightarrow> c = CHR 0x0A"
  "(of_char c :: int) = 13 \<longleftrightarrow> c = CHR 0x0D"
  "(of_char c :: int) = 35 \<longleftrightarrow> c = CHR ''#''"
proof -
  have "(of_char c :: int) = of_char (CHR 0x0A) \<longleftrightarrow> c = CHR 0x0A" by (rule of_char_eq_iff)
  then show "(of_char c :: int) = 10 \<longleftrightarrow> c = CHR 0x0A" by simp
  have "(of_char c :: int) = of_char (CHR 0x0D) \<longleftrightarrow> c = CHR 0x0D" by (rule of_char_eq_iff)
  then show "(of_char c :: int) = 13 \<longleftrightarrow> c = CHR 0x0D" by simp
  have "(of_char c :: int) = of_char (CHR ''#'') \<longleftrightarrow> c = CHR ''#''" by (rule of_char_eq_iff)
  then show "(of_char c :: int) = 35 \<longleftrightarrow> c = CHR ''#''" by simp
qed

lemma skip_whitespace_blank:
  "isspace (LastChar s) \<Longrightarrow> blank (stdin s) \<Longrightarrow>
   (LastChar (skip_whitespace s) = EOF \<and> stdin (skip_whitespace s) = []) \<or>
   (LastChar (skip_whitespace s) = 35 \<and> in_comment (stdin (skip_whitespace s)))"
proof (induction s rule: skip_whitespace.induct)
  case (1 s)
  show ?case
  proof (cases "stdin s")
    case Nil
    then have "read_char s = s\<lparr>LastChar := EOF\<rparr>" by (simp add: read_char_def getchar_def)
    then show ?thesis
      using "1.prems" Nil
      by (subst (1 2 3 4) skip_whitespace.simps, subst (1 2 3 4) skip_whitespace.simps)
         (simp add: isspace_def)
  next
    case (Cons c cs)
    then have rc: "read_char s = s\<lparr>stdin := cs, LastChar := of_char c\<rparr>"
      by (simp add: read_char_def getchar_def)
    show ?thesis
    proof (cases "isspace (of_char c)")
      case True
      with "1.IH" "1.prems" Cons rc show ?thesis
        by (subst (1 2 3 4) skip_whitespace.simps) simp
    next
      case False
      with "1.prems" Cons have "c = CHR ''#''" "in_comment cs" by (auto split: if_splits)
      then show ?thesis
        using "1.prems" rc False
        by (subst (1 2 3 4) skip_whitespace.simps, subst (1 2 3 4) skip_whitespace.simps) simp
    qed
  qed
qed

lemma skip_comment_blank:
  "in_comment (stdin s) \<Longrightarrow>
   (LastChar (skip_comment s) = EOF \<and> stdin (skip_comment s) = []) \<or>
   (isspace (LastChar (skip_comment s)) \<and> blank (stdin (skip_comment s)))"
proof (induction s rule: skip_comment.induct)
  case (1 s)
  show ?case
  proof (cases "stdin s")
    case Nil
    then have "read_char s = s\<lparr>LastChar := EOF\<rparr>" by (simp add: read_char_def getchar_def)
    then show ?thesis using Nil by (subst (1 2 3 4) skip_comment.simps) (simp add: Let_def)
  next
    case (Cons c cs)
    then have rc: "read_char s = s\<lparr>stdin := cs, LastChar := of_char c\<rparr>"
      by (simp add: read_char_def getchar_def)
    have nonneg: "(of_char c :: int) \<noteq> EOF"
    proof -
      have "(of_char c :: int) = int (of_char c)" by (simp only: of_nat_of_char)
      then show ?thesis by linarith
    qed
    show ?thesis
    proof (cases "c = CHR 0x0A \<or> c = CHR 0x0D")
      case True
      with "1.prems" Cons have "blank cs" by simp
      with True rc show ?thesis
        by (subst (1 2 3 4) skip_comment.simps) (auto simp: Let_def isspace_def)
    next
      case False
      with "1.prems" Cons have ic: "in_comment cs" by simp
      from False have ne: "(of_char c :: int) \<noteq> 10" "(of_char c :: int) \<noteq> 13"
        by (simp_all add: of_char_eq_numeral)
      from "1.IH" [of "read_char s"] ic rc ne nonneg
      have "(LastChar (skip_comment (read_char s)) = EOF \<and> stdin (skip_comment (read_char s)) = [])
          \<or> (isspace (LastChar (skip_comment (read_char s)))
              \<and> blank (stdin (skip_comment (read_char s))))"
        by simp
      moreover have "skip_comment s = skip_comment (read_char s)"
        using rc ne nonneg by (subst skip_comment.simps) (simp add: Let_def)
      ultimately show ?thesis by simp
    qed
  qed
qed

lemma gettok_blank:
  "isspace (LastChar s0) \<Longrightarrow> blank (stdin s0) \<Longrightarrow>
   fst (gettok s0) = tok_eof \<and> stdin (snd (gettok s0)) = [] \<and> LastChar (snd (gettok s0)) = EOF"
proof (induction s0 rule: gettok.induct)
  case (1 s0)
  define s where "s = skip_whitespace s0"
  from skip_whitespace_blank [OF "1.prems"]
  consider (eof) "LastChar s = EOF" "stdin s = []"
    | (comment) "LastChar s = 35" "in_comment (stdin s)"
    by (auto simp: s_def)
  then show ?case
  proof cases
    case eof
    then have "gettok s0 = (tok_eof, s)"
      by (subst gettok.simps) (simp add: Let_def s_def [symmetric] isalpha_def isdigit_def)
    with eof show ?thesis by simp
  next
    case comment
    have na: "\<not> isalpha (LastChar s)" "\<not> (isdigit (LastChar s) \<or> LastChar s = 46)"
      using comment by (simp_all add: isalpha_def isdigit_def)
    from skip_comment_blank [OF comment(2)]
    consider (ceof) "LastChar (skip_comment s) = EOF" "stdin (skip_comment s) = []"
      | (more) "isspace (LastChar (skip_comment s))" "blank (stdin (skip_comment s))"
      by auto
    then show ?thesis
    proof cases
      case ceof
      then have "gettok s0 = (tok_eof, skip_comment s)"
        using comment na by (subst gettok.simps) (simp add: Let_def s_def [symmetric])
      with ceof show ?thesis by simp
    next
      case more
      then have ne: "LastChar (skip_comment s) \<noteq> EOF" by (auto simp: isspace_def)
      then have "gettok s0 = gettok (skip_comment s)"
        using comment na by (subst gettok.simps) (simp add: Let_def s_def [symmetric])
      moreover have "fst (gettok (skip_comment s)) = tok_eof
          \<and> stdin (snd (gettok (skip_comment s))) = []
          \<and> LastChar (snd (gettok (skip_comment s))) = EOF"
        using "1.IH" [of s] na comment ne more by (simp add: s_def)
      ultimately show ?thesis by simp
    qed
  qed
qed

text \<open>
  Claim C6.  On every input made of whitespace and \<^verbatim>\<open>#\<close>-comments only, the first call of
  \<^verbatim>\<open>gettok\<close> returns \<^verbatim>\<open>tok_eof\<close>: no token comes before it.  The call has read the whole
  input, and the lookahead \<^verbatim>\<open>main\<close> primes is \<^verbatim>\<open>tok_eof\<close>.
\<close>

theorem C6_blank_input:
  "blank inp \<Longrightarrow>
   fst (gettok (initial_state inp)) = tok_eof
   \<and> stdin (snd (gettok (initial_state inp))) = []
   \<and> LastChar (snd (gettok (initial_state inp))) = EOF
   \<and> CurTok (startup inp) = tok_eof"
proof -
  assume b: "blank inp"
  have g: "fst (gettok s) = tok_eof \<and> stdin (snd (gettok s)) = []
      \<and> LastChar (snd (gettok s)) = EOF"
    if "LastChar s = 32" "stdin s = inp" for s
    using gettok_blank [of s] that b by (simp add: isspace_def)
  have 1: "fst (gettok (initial_state inp)) = tok_eof
      \<and> stdin (snd (gettok (initial_state inp))) = []
      \<and> LastChar (snd (gettok (initial_state inp))) = EOF"
    by (rule g) (simp_all add: initial_state_def)
  obtain s where s: "startup inp = snd (getNextToken s)" "LastChar s = 32" "stdin s = inp"
    by (simp add: startup_def initial_state_def fprintf_stderr_def)
  have "CurTok (startup inp) = fst (gettok s)"
    unfolding s(1) getNextToken_frame(3) by (simp add: getNextToken_def split: prod.splits)
  with g [OF s(2,3)] have 2: "CurTok (startup inp) = tok_eof" by simp
  from 1 2 show ?thesis by simp
qed


theorem C6_blank_input_witness:
  "blank (''  # one'' @ [CHR 0x0A, CHR 0x09] @ ''# two'')
   \<and> fst (gettok (initial_state (''  # one'' @ [CHR 0x0A, CHR 0x09] @ ''# two''))) = tok_eof
   \<and> stdin (snd (gettok (initial_state (''  # one'' @ [CHR 0x0A, CHR 0x09] @ ''# two'')))) = []
   \<and> LastChar (snd (gettok (initial_state (''  # one'' @ [CHR 0x0A, CHR 0x09] @ ''# two'')))) = EOF
   \<and> CurTok (startup (''  # one'' @ [CHR 0x0A, CHR 0x09] @ ''# two'')) = tok_eof"
proof -
  have b: "blank (''  # one'' @ [CHR 0x0A, CHR 0x09] @ ''# two'')" by code_simp
  from C6_blank_input [OF b] b show ?thesis by simp
qed

text \<open>
  Claim C7.  Once \<^verbatim>\<open>gettok\<close> has returned \<^verbatim>\<open>tok_eof\<close>, \<^verbatim>\<open>LastChar\<close> holds \<^verbatim>\<open>EOF\<close>, and a
  further call returns \<^verbatim>\<open>tok_eof\<close> and leaves the whole state as it is: it reads
  nothing from standard input.  So does every later call, and so does \<^verbatim>\<open>getNextToken\<close>.
  The class \<^verbatim>\<open>Lexer\<close> of the other program behaves alike: a call of \<^verbatim>\<open>NextToken\<close> that
  returns an \<^verbatim>\<open>EOFToken\<close> throws nothing, does not move the cursor, and the next call
  returns the same token again.
\<close>

theorem C7_eof_idempotent:
  "(fst (gettok s) = tok_eof
      \<longrightarrow> gettok (snd (gettok s)) = (tok_eof, snd (gettok s))
          \<and> fst (gettok (((\<lambda>s. snd (gettok s)) ^^ k) (snd (gettok s)))) = tok_eof)
   \<and> (fst (getNextToken s) = tok_eof
      \<longrightarrow> getNextToken (snd (getNextToken s)) = (tok_eof, snd (getNextToken s)))
   \<and> (NextToken order l = Inr (t, l') \<and> Kind t = EOFToken
      \<longrightarrow> l' = l \<and> NextToken order l' = Inr (t, l'))"
proof (intro conjI impI)
  assume e: "fst (gettok s) = tok_eof"
  then have "LastChar (snd (gettok s)) = EOF" by (rule gettok_eof_LastChar)
  then show fp: "gettok (snd (gettok s)) = (tok_eof, snd (gettok s))" by (rule gettok_at_EOF)
  have "((\<lambda>s. snd (gettok s)) ^^ k) (snd (gettok s)) = snd (gettok s)"
    by (induction k) (simp_all add: fp)
  then show "fst (gettok (((\<lambda>s. snd (gettok s)) ^^ k) (snd (gettok s)))) = tok_eof"
    by (simp add: fp)
next
  assume e: "fst (getNextToken s) = tok_eof"
  obtain t0 s0 where g: "gettok s = (t0, s0)" by (cases "gettok s")
  with e have t0: "t0 = tok_eof" by (simp add: getNextToken_def)
  from gettok_eof_LastChar [of s] g t0 have "LastChar s0 = EOF" by simp
  then have "gettok (s0\<lparr>CurTok := tok_eof\<rparr>) = (tok_eof, s0\<lparr>CurTok := tok_eof\<rparr>)"
    by (intro gettok_at_EOF) simp
  then show "getNextToken (snd (getNextToken s)) = (tok_eof, snd (getNextToken s))"
    using g t0 by (simp add: getNextToken_def)
next
  assume a: "NextToken order l = Inr (t, l') \<and> Kind t = EOFToken"
  then have ae: "at_end l"
    by (auto simp: NextToken_def Let_def split: if_splits option.splits)
  with a show "l' = l" by (simp add: NextToken_def)
  with a show "NextToken order l' = Inr (t, l')" by simp
qed

theorem C7_eof_idempotent_witness:
  "fst (gettok (initial_state '' '')) = tok_eof
   \<and> gettok (snd (gettok (initial_state '' ''))) = (tok_eof, snd (gettok (initial_state '' '')))
   \<and> fst (gettok (((\<lambda>s. snd (gettok s)) ^^ 3) (snd (gettok (initial_state '' ''))))) = tok_eof
   \<and> fst (getNextToken (snd (getNextToken (initial_state ''x'')))) = tok_eof
   \<and> getNextToken (snd (getNextToken (snd (getNextToken (initial_state ''x''))))) =
       (tok_eof, snd (getNextToken (snd (getNextToken (initial_state ''x'')))))
   \<and> NextToken True \<lparr>lexer_text = ''1+'', lexer_position = 2\<rparr> =
       Inr (\<lparr>Kind = EOFToken, Position = 2, Text = [], Value = 0\<rparr>,
            \<lparr>lexer_text = ''1+'', lexer_position = 2\<rparr>)
   \<and> Kind \<lparr>Kind = EOFToken, Position = 2, Text = [], Value = 0\<rparr> = EOFToken"
proof -
  have h1: "fst (gettok (initial_state '' '')) = tok_eof" by code_simp
  have h2: "fst (getNextToken (snd (getNextToken (initial_state ''x'')))) = tok_eof" by code_simp
  have h3: "NextToken True \<lparr>lexer_text = ''1+'', lexer_position = 2\<rparr> =
       Inr (\<lparr>Kind = EOFToken, Position = 2, Text = [], Value = 0\<rparr>,
            \<lparr>lexer_text = ''1+'', lexer_position = 2\<rparr>)
     \<and> Kind \<lparr>Kind = EOFToken, Position = 2, Text = [], Value = 0\<rparr> = EOFToken"
    by code_simp
  from C7_eof_idempotent [where s = "initial_state '' ''" and k = 3] h1
  have a: "gettok (snd (gettok (initial_state '' ''))) = (tok_eof, snd (gettok (initial_state '' '')))
      \<and> fst (gettok (((\<lambda>s. snd (gettok s)) ^^ 3) (snd (gettok (initial_state '' ''))))) = tok_eof"
    by blast
  from C7_eof_idempotent [where s = "snd (getNextToken (initial_state ''x''))"] h2
  have b: "getNextToken (snd (getNextToken (snd (getNextToken (initial_state ''x''))))) =
       (tok_eof, snd (getNextToken (snd (getNextToken (initial_state ''x'')))))"
    by blast
  from C7_eof_idempotent [where order = True and l = "\<lparr>lexer_text = ''1+'', lexer_position = 2\<rparr>"
      and t = "\<lparr>Kind = EOFToken, Position = 2, Text = [], Value = 0\<rparr>"
      and l' = "\<lparr>lexer_text = ''1+'', lexer_position = 2\<rparr>"] h3
  have c: "NextToken True \<lparr>lexer_text = ''1+'', lexer_position = 2\<rparr> =
       Inr (\<lparr>Kind = EOFToken, Position = 2, Text = [], Value = 0\<rparr>,
            \<lparr>lexer_text = ''1+'', lexer_position = 2\<rparr>)"
    by blast
  from h1 h2 h3 a b c show ?thesis by blast
qed


subsection \<open>Failures\<close>

text \<open>
  A parse function writes to the error stream only when it fails, and then one line.
\<close>

lemma GetTokPrecedence_stderr: "GetTokPrecedence s = (p, s1) \<Longrightarrow> stderr s1 = stderr s"
  by (auto simp: GetTokPrecedence_def split: prod.splits if_splits)

lemma LogError_logged:
  "msg \<in> set error_messages \<Longrightarrow> LogError msg s = (r, s') \<Longrightarrow> r = None \<and> logged_one_error s s'"
  by (auto simp: LogError_def logged_one_error_def fprintf_stderr_def)

lemma parse_stderr:
  "(\<forall>s r s'. ParseExpression n s = Some (r, s') \<longrightarrow>
      (r = None \<longrightarrow> logged_one_error s s') \<and> (r \<noteq> None \<longrightarrow> stderr s' = stderr s))
 \<and> (\<forall>s r s'. ParsePrimary n s = Some (r, s') \<longrightarrow>
      (r = None \<longrightarrow> logged_one_error s s') \<and> (r \<noteq> None \<longrightarrow> stderr s' = stderr s))
 \<and> (\<forall>s r s'. ParseParenExpr n s = Some (r, s') \<longrightarrow>
      (r = None \<longrightarrow> logged_one_error s s') \<and> (r \<noteq> None \<longrightarrow> stderr s' = stderr s))
 \<and> (\<forall>s r s'. ParseIdentifierExpr n s = Some (r, s') \<longrightarrow>
      (r = None \<longrightarrow> logged_one_error s s') \<and> (r \<noteq> None \<longrightarrow> stderr s' = stderr s))
 \<and> (\<forall>s r s' as. ParseArgs n as s = Some (r, s') \<longrightarrow>
      (r = None \<longrightarrow> logged_one_error s s') \<and> (r \<noteq> None \<longrightarrow> stderr s' = stderr s))
 \<and> (\<forall>s r s' pr l. ParseBinOpRHS n pr l s = Some (r, s') \<longrightarrow>
      (r = None \<longrightarrow> logged_one_error s s') \<and> (r \<noteq> None \<longrightarrow> stderr s' = stderr s))"
proof (induction n)
  case 0
  show ?case
    by (simp add: ParseExpression.simps ParsePrimary.simps ParseParenExpr.simps
        ParseIdentifierExpr.simps ParseArgs.simps ParseBinOpRHS.simps)
next
  case (Suc n)
  note e = Suc.IH [THEN conjunct1, rule_format]
  note p = Suc.IH [THEN conjunct2, THEN conjunct1, rule_format]
  note q = Suc.IH [THEN conjunct2, THEN conjunct2, THEN conjunct1, rule_format]
  note i = Suc.IH [THEN conjunct2, THEN conjunct2, THEN conjunct2, THEN conjunct1, rule_format]
  note a = Suc.IH [THEN conjunct2, THEN conjunct2, THEN conjunct2, THEN conjunct2,
      THEN conjunct1, rule_format]
  note b = Suc.IH [THEN conjunct2, THEN conjunct2, THEN conjunct2, THEN conjunct2,
      THEN conjunct2, rule_format]
  have m: "''unknown token when expecting an expression'' \<in> set error_messages"
    "msg_expected_rparen \<in> set error_messages"
    by (simp_all add: error_messages_def)
  have 1: "(r = None \<longrightarrow> logged_one_error s s') \<and> (r \<noteq> None \<longrightarrow> stderr s' = stderr s)"
    if "ParseExpression (Suc n) s = Some (r, s')" for s r s'
    using that
    by (subst (asm) ParseExpression.simps)
       (auto split: option.splits prod.splits dest!: p b simp: logged_one_error_def)
  have 2: "(r = None \<longrightarrow> logged_one_error s s') \<and> (r \<noteq> None \<longrightarrow> stderr s' = stderr s)"
    if "ParsePrimary (Suc n) s = Some (r, s')" for s r s'
    using that
    apply (subst (asm) ParsePrimary.simps)
    apply (auto split: if_splits dest: i q simp: ParseNumberExpr_def getNextToken_frame)
     apply (auto simp: getNextToken_frame dest: LogError_logged [OF m(1)])
    done
  have 3: "(r = None \<longrightarrow> logged_one_error s s') \<and> (r \<noteq> None \<longrightarrow> stderr s' = stderr s)"
    if "ParseParenExpr (Suc n) s = Some (r, s')" for s r s'
    using that
    apply (subst (asm) ParseParenExpr.simps)
    apply (auto simp: Let_def split: option.splits prod.splits if_splits
        dest!: e LogError_logged [OF m(2)])
      apply (auto simp: logged_one_error_def getNextToken_frame)
    done
  have 4: "(r = None \<longrightarrow> logged_one_error s s') \<and> (r \<noteq> None \<longrightarrow> stderr s' = stderr s)"
    if "ParseIdentifierExpr (Suc n) s = Some (r, s')" for s r s'
    using that
    apply (subst (asm) ParseIdentifierExpr.simps)
    apply (auto simp: Let_def split: option.splits prod.splits if_splits dest!: a)
        apply (auto simp: logged_one_error_def getNextToken_frame)
    done
  have 5: "(r = None \<longrightarrow> logged_one_error s s') \<and> (r \<noteq> None \<longrightarrow> stderr s' = stderr s)"
    if "ParseArgs (Suc n) as s = Some (r, s')" for s r s' as
    using that
    apply (subst (asm) ParseArgs.simps)
    apply (auto simp: Let_def split: option.splits prod.splits if_splits dest!: a e)
        apply (auto simp: logged_one_error_def getNextToken_frame LogError_def fprintf_stderr_def
        error_messages_def)
    done
  have 6: "(r = None \<longrightarrow> logged_one_error s s') \<and> (r \<noteq> None \<longrightarrow> stderr s' = stderr s)"
    if "ParseBinOpRHS (Suc n) pr l s = Some (r, s')" for s r s' pr l
    using that
    apply (subst (asm) ParseBinOpRHS.simps)
    apply (auto simp: Let_def split: option.splits prod.splits if_splits
        dest!: p b GetTokPrecedence_stderr)
         apply (auto simp: logged_one_error_def getNextToken_frame)
    done
  show ?case by (intro conjI allI impI) (auto dest: 1 2 3 4 5 6)
qed

lemma ParsePrototype_ArgNames_stderr:
  "stderr (snd (ParsePrototype_ArgNames as s)) = stderr s"
proof (induction as s rule: ParsePrototype_ArgNames.induct)
  case (1 ArgNames s)
  obtain t s' where g: "getNextToken s = (t, s')" by (cases "getNextToken s")
  then have f: "stderr s' = stderr s" using getNextToken_frame(2) [of s] by simp
  show ?case
    using "1.IH" g f
    by (subst ParsePrototype_ArgNames.simps) (auto split: prod.splits)
qed

lemma ParsePrototype_stderr:
  "ParsePrototype s = (r, s') \<Longrightarrow>
   (r = None \<longrightarrow> logged_one_error s s') \<and> (r \<noteq> None \<longrightarrow> stderr s' = stderr s)"
  using ParsePrototype_ArgNames_stderr [of "[]" "snd (getNextToken s)"]
  by (auto simp: ParsePrototype_def Let_def LogErrorP_def LogError_def fprintf_stderr_def
      logged_one_error_def error_messages_def getNextToken_frame
      split: if_splits prod.splits)


text \<open>
  Claim C8.  On each of the inputs \<^verbatim>\<open>(\<close>, \<^verbatim>\<open>foo(1,\<close> and \<^verbatim>\<open>def\<close> the parser returns, and
  what it returns is the null pointer.  The production that meets the end of input
  writes one message and returns the null pointer; the top-level parse function returns
  the null pointer in the very same state, so no production in between has changed
  anything.  The recovery step of the driver then calls \<^verbatim>\<open>getNextToken\<close>, which returns
  (the lookahead already is \<^verbatim>\<open>tok_eof\<close> and stays so), and \<^verbatim>\<open>main\<close> runs to its end: the
  error stream holds the banner, the prompts and the one message.  Where a token is
  left, the recovery step consumes it: on \<^verbatim>\<open>) 1\<close> the driver reports the \<^verbatim>\<open>)\<close>, skips
  it and parses \<open>1\<close>.
\<close>

theorem C8_malformed_inputs:
  "ParseExpression (2 + k) paren_inner =
     Some (None, fprintf_stderr (''Error: unknown token when expecting an expression'' @ [CHR 0x0A])
                   paren_inner)
   \<and> ParseTopLevelExpr (5 + k) (startup ''('') =
     Some (None, fprintf_stderr (''Error: unknown token when expecting an expression'' @ [CHR 0x0A])
                   paren_inner)
   \<and> getNextToken (fprintf_stderr (''Error: unknown token when expecting an expression'' @ [CHR 0x0A])
                     paren_inner) =
     (tok_eof, fprintf_stderr (''Error: unknown token when expecting an expression'' @ [CHR 0x0A])
                 paren_inner)
   \<and> map_option (\<lambda>s. (CurTok s, stderr s)) (main (6 + k) ''('') =
     Some (tok_eof, [''Bologna v0.1.0'' @ [CHR 0x0A], ''> '', ''> '',
                     ''Error: unknown token when expecting an expression'' @ [CHR 0x0A], ''> ''])
   \<and> ParseExpression (2 + k) call_after_comma =
     Some (None, fprintf_stderr (''Error: unknown token when expecting an expression'' @ [CHR 0x0A])
                   call_after_comma)
   \<and> ParseTopLevelExpr (7 + k) (startup ''foo(1,'') =
     Some (None, fprintf_stderr (''Error: unknown token when expecting an expression'' @ [CHR 0x0A])
                   call_after_comma)
   \<and> getNextToken (fprintf_stderr (''Error: unknown token when expecting an expression'' @ [CHR 0x0A])
                     call_after_comma) =
     (tok_eof, fprintf_stderr (''Error: unknown token when expecting an expression'' @ [CHR 0x0A])
                 call_after_comma)
   \<and> map_option (\<lambda>s. (CurTok s, stderr s)) (main (8 + k) ''foo(1,'') =
     Some (tok_eof, [''Bologna v0.1.0'' @ [CHR 0x0A], ''> '', ''> '',
                     ''Error: unknown token when expecting an expression'' @ [CHR 0x0A], ''> ''])
   \<and> ParsePrototype def_inner =
     (None, fprintf_stderr (''Error: Expected function name in prototype'' @ [CHR 0x0A]) def_inner)
   \<and> ParseDefinition k (startup ''def'') =
     Some (None, fprintf_stderr (''Error: Expected function name in prototype'' @ [CHR 0x0A])
                   def_inner)
   \<and> getNextToken (fprintf_stderr (''Error: Expected function name in prototype'' @ [CHR 0x0A])
                     def_inner) =
     (tok_eof, fprintf_stderr (''Error: Expected function name in prototype'' @ [CHR 0x0A])
                 def_inner)
   \<and> map_option (\<lambda>s. (CurTok s, stderr s)) (main (2 + k) ''def'') =
     Some (tok_eof, [''Bologna v0.1.0'' @ [CHR 0x0A], ''> '', ''> '',
                     ''Error: Expected function name in prototype'' @ [CHR 0x0A], ''> ''])
   \<and> map_option (\<lambda>s. (CurTok s, stderr s)) (main (5 + k) '') 1'') =
     Some (tok_eof, [''Bologna v0.1.0'' @ [CHR 0x0A], ''> '', ''> '',
                     ''Error: unknown token when expecting an expression'' @ [CHR 0x0A], ''> '',
                     ''Parsed a top-level expr'' @ [CHR 0x0A], ''> ''])"
proof -
  have d4: "map_option (\<lambda>s. (CurTok s, stderr s)) (main 5 '') 1'') =
     Some (tok_eof, [''Bologna v0.1.0'' @ [CHR 0x0A], ''> '', ''> '',
                     ''Error: unknown token when expecting an expression'' @ [CHR 0x0A], ''> '',
                     ''Parsed a top-level expr'' @ [CHR 0x0A], ''> ''])"
    by code_simp
  from d4 obtain f4 where f4: "main 5 '') 1'' = Some f4" by blast
  have a1: "ParseExpression 2 paren_inner =
     Some (None, fprintf_stderr (''Error: unknown token when expecting an expression'' @ [CHR 0x0A])
                   paren_inner)"
    by code_simp
  have a2: "ParseTopLevelExpr 5 (startup ''('') =
     Some (None, fprintf_stderr (''Error: unknown token when expecting an expression'' @ [CHR 0x0A])
                   paren_inner)"
    by code_simp
  have a3: "getNextToken (fprintf_stderr (''Error: unknown token when expecting an expression'' @ [CHR 0x0A])
                     paren_inner) =
     (tok_eof, fprintf_stderr (''Error: unknown token when expecting an expression'' @ [CHR 0x0A])
                 paren_inner)"
    by code_simp
  have a4: "map_option (\<lambda>s. (CurTok s, stderr s)) (main 6 ''('') =
     Some (tok_eof, [''Bologna v0.1.0'' @ [CHR 0x0A], ''> '', ''> '',
                     ''Error: unknown token when expecting an expression'' @ [CHR 0x0A], ''> ''])"
    by code_simp
  from a4 obtain f1 where f1: "main 6 ''('' = Some f1" by blast
  have b1: "ParseExpression 2 call_after_comma =
     Some (None, fprintf_stderr (''Error: unknown token when expecting an expression'' @ [CHR 0x0A])
                   call_after_comma)"
    by code_simp
  have b2: "ParseTopLevelExpr 7 (startup ''foo(1,'') =
     Some (None, fprintf_stderr (''Error: unknown token when expecting an expression'' @ [CHR 0x0A])
                   call_after_comma)"
    by code_simp
  have b3: "getNextToken (fprintf_stderr (''Error: unknown token when expecting an expression'' @ [CHR 0x0A])
                     call_after_comma) =
     (tok_eof, fprintf_stderr (''Error: unknown token when expecting an expression'' @ [CHR 0x0A])
                 call_after_comma)"
    by code_simp
  have b4: "map_option (\<lambda>s. (CurTok s, stderr s)) (main 8 ''foo(1,'') =
     Some (tok_eof, [''Bologna v0.1.0'' @ [CHR 0x0A], ''> '', ''> '',
                     ''Error: unknown token when expecting an expression'' @ [CHR 0x0A], ''> ''])"
    by code_simp
  from b4 obtain f2 where f2: "main 8 ''foo(1,'' = Some f2" by blast
  have c1: "ParsePrototype def_inner =
     (None, fprintf_stderr (''Error: Expected function name in prototype'' @ [CHR 0x0A]) def_inner)"
    by code_simp
  have c2: "ParseDefinition 0 (startup ''def'') =
     Some (None, fprintf_stderr (''Error: Expected function name in prototype'' @ [CHR 0x0A])
                   def_inner)"
    by code_simp
  have c3: "getNextToken (fprintf_stderr (''Error: Expected function name in prototype'' @ [CHR 0x0A])
                     def_inner) =
     (tok_eof, fprintf_stderr (''Error: Expected function name in prototype'' @ [CHR 0x0A])
                 def_inner)"
    by code_simp
  have c4: "map_option (\<lambda>s. (CurTok s, stderr s)) (main 2 ''def'') =
     Some (tok_eof, [''Bologna v0.1.0'' @ [CHR 0x0A], ''> '', ''> '',
                     ''Error: Expected function name in prototype'' @ [CHR 0x0A], ''> ''])"
    by code_simp
  from c4 obtain f3 where f3: "main 2 ''def'' = Some f3" by blast
  show ?thesis
    using ParseExpression_fuel [OF a1, of k] ParseTopLevelExpr_fuel [OF a2, of k] a3
      main_fuel [OF f1, of k] f1 a4
      ParseExpression_fuel [OF b1, of k] ParseTopLevelExpr_fuel [OF b2, of k] b3
      main_fuel [OF f2, of k] f2 b4
      c1 ParseDefinition_fuel [OF c2, of k] c3
      main_fuel [OF f3, of k] f3 c4
      main_fuel [OF f4, of k] f4 d4
    by simp
qed


text \<open>
  Claim C9 says that a failure result carries a message and a token position.  The
  program has neither: a failed parse returns the null pointer and nothing else.  The
  inputs \<^verbatim>\<open>)\<close> and \<^verbatim>\<open>(1\<close> fail with different messages and the inputs \<^verbatim>\<open>)\<close> and
  \<^verbatim>\<open>1 + )\<close> fail at different tokens (the first and the third), and all three return the
  same value to the caller; the first and the third even leave the same error stream.
\<close>

theorem C9_counterexample:
  "map_option (\<lambda>(r, s). (r, stderr s)) (ParseExpression 5 (startup '')'')) =
     Some (None, [''Bologna v0.1.0'' @ [CHR 0x0A], ''> '',
                  ''Error: unknown token when expecting an expression'' @ [CHR 0x0A]])
   \<and> map_option (\<lambda>(r, s). (r, stderr s)) (ParseExpression 5 (startup ''(1'')) =
     Some (None, [''Bologna v0.1.0'' @ [CHR 0x0A], ''> '',
                  ''Error: expected '' @ [CHR 0x27, CHR '')'', CHR 0x27, CHR 0x0A]])
   \<and> map_option (\<lambda>(r, s). (r, stderr s)) (ParseExpression 5 (startup ''1 + )'')) =
     Some (None, [''Bologna v0.1.0'' @ [CHR 0x0A], ''> '',
                  ''Error: unknown token when expecting an expression'' @ [CHR 0x0A]])"
  by code_simp

text \<open>
  Claim C9, amended.  Whenever a parse function returns the null pointer, it has
  appended exactly one line to the error stream, \<^verbatim>\<open>Error: \<close> followed by one of the six
  messages of the parser and a line feed.  This holds for the expression parser and for
  the three functions the driver calls.  The message goes to the error stream, not to
  the caller, and no position is kept.
\<close>

theorem C9_failure_logs_message:
  "(ParseExpression n s = Some (None, s') \<longrightarrow> logged_one_error s s')
   \<and> (ParseTopLevelExpr n s = Some (None, s') \<longrightarrow> logged_one_error s s')
   \<and> (ParseDefinition n s = Some (None, s') \<longrightarrow> logged_one_error s s')
   \<and> (ParseExtern s = (None, s') \<longrightarrow> logged_one_error s s')"
proof (intro conjI impI)
  note e = parse_stderr [THEN conjunct1, rule_format]
  show 1: "logged_one_error s s'" if "ParseExpression n s = Some (None, s')" for n s s'
    using e [OF that] by simp
  show "logged_one_error s s'" if "ParseTopLevelExpr n s = Some (None, s')"
  proof -
    from that have "ParseExpression n s = Some (None, s')"
      by (auto simp: ParseTopLevelExpr_def Let_def split: option.splits prod.splits)
    then show ?thesis by (rule 1)
  qed
  show "logged_one_error s s'" if "ParseExtern s = (None, s')"
  proof -
    from that ParsePrototype_stderr [of "snd (getNextToken s)" None s']
    have "logged_one_error (snd (getNextToken s)) s'" by (simp add: ParseExtern_def)
    then show ?thesis by (simp add: logged_one_error_def getNextToken_frame)
  qed
  show "logged_one_error s s'" if d: "ParseDefinition n s = Some (None, s')"
  proof -
    obtain pr s2 where p: "ParsePrototype (snd (getNextToken s)) = (pr, s2)"
      by (cases "ParsePrototype (snd (getNextToken s))")
    show ?thesis
    proof (cases pr)
      case None
      with d p have "s' = s2" by (simp add: ParseDefinition_def Let_def)
      with ParsePrototype_stderr [OF p] None
      have "logged_one_error (snd (getNextToken s)) s'" by simp
      then show ?thesis by (simp add: logged_one_error_def getNextToken_frame)
    next
      case (Some Proto)
      with d p have "ParseExpression n s2 = Some (None, s')"
        by (auto simp: ParseDefinition_def Let_def split: option.splits prod.splits)
      then have "logged_one_error s2 s'" by (rule 1)
      moreover from ParsePrototype_stderr [OF p] Some
      have "stderr s2 = stderr s" by (simp add: getNextToken_frame)
      ultimately show ?thesis by (simp add: logged_one_error_def)
    qed
  qed
qed

theorem C9_failure_logs_message_witness:
  "ParseExpression 2 (startup '')'') =
     Some (None, fprintf_stderr (''Error: unknown token when expecting an expression'' @ [CHR 0x0A])
                   (startup '')''))
   \<and> logged_one_error (startup '')'')
       (fprintf_stderr (''Error: unknown token when expecting an expression'' @ [CHR 0x0A])
          (startup '')''))
   \<and> ParseTopLevelExpr 5 (startup ''('') =
     Some (None, fprintf_stderr (''Error: unknown token when expecting an expression'' @ [CHR 0x0A])
                   paren_inner)
   \<and> logged_one_error (startup ''('')
       (fprintf_stderr (''Error: unknown token when expecting an expression'' @ [CHR 0x0A])
          paren_inner)
   \<and> ParseDefinition 0 (startup ''def'') =
     Some (None, fprintf_stderr (''Error: Expected function name in prototype'' @ [CHR 0x0A])
                   def_inner)
   \<and> logged_one_error (startup ''def'')
       (fprintf_stderr (''Error: Expected function name in prototype'' @ [CHR 0x0A]) def_inner)
   \<and> ParseExtern (startup ''extern sin x'') =
     (None, fprintf_stderr (''Error: '' @ msg_proto_lparen @ [CHR 0x0A])
              (snd (getNextToken proto_no_lparen)))
   \<and> logged_one_error (startup ''extern sin x'')
       (fprintf_stderr (''Error: '' @ msg_proto_lparen @ [CHR 0x0A])
          (snd (getNextToken proto_no_lparen)))"
proof -
  have h1: "ParseExpression 2 (startup '')'') =
     Some (None, fprintf_stderr (''Error: unknown token when expecting an expression'' @ [CHR 0x0A])
                   (startup '')''))"
    by code_simp
  have h2: "ParseTopLevelExpr 5 (startup ''('') =
     Some (None, fprintf_stderr (''Error: unknown token when expecting an expression'' @ [CHR 0x0A])
                   paren_inner)"
    by code_simp
  have h3: "ParseDefinition 0 (startup ''def'') =
     Some (None, fprintf_stderr (''Error: Expected function name in prototype'' @ [CHR 0x0A])
                   def_inner)"
    by code_simp
  have h4: "ParseExtern (startup ''extern sin x'') =
     (None, fprintf_stderr (''Error: '' @ msg_proto_lparen @ [CHR 0x0A])
              (snd (getNextToken proto_no_lparen)))"
    by code_simp
  from C9_failure_logs_message [where n = 2 and s = "startup '')''"
      and s' = "fprintf_stderr (''Error: unknown token when expecting an expression'' @ [CHR 0x0A])
                  (startup '')'')"] h1
  have c1: "logged_one_error (startup '')'')
       (fprintf_stderr (''Error: unknown token when expecting an expression'' @ [CHR 0x0A])
          (startup '')''))"
    by blast
  from C9_failure_logs_message [where n = 5 and s = "startup ''(''"
      and s' = "fprintf_stderr (''Error: unknown token when expecting an expression'' @ [CHR 0x0A])
                  paren_inner"] h2
  have c2: "logged_one_error (startup ''('')
       (fprintf_stderr (''Error: unknown token when expecting an expression'' @ [CHR 0x0A])
          paren_inner)"
    by blast
  from C9_failure_logs_message [where n = 0 and s = "startup ''def''"
      and s' = "fprintf_stderr (''Error: Expected function name in prototype'' @ [CHR 0x0A])
                  def_inner"] h3
  have c3: "logged_one_error (startup ''def'')
       (fprintf_stderr (''Error: Expected function name in prototype'' @ [CHR 0x0A]) def_inner)"
    by blast
  from C9_failure_logs_message [where s = "startup ''extern sin x''"
      and s' = "fprintf_stderr (''Error: '' @ msg_proto_lparen @ [CHR 0x0A])
                  (snd (getNextToken proto_no_lparen))"] h4
  have c4: "logged_one_error (startup ''extern sin x'')
       (fprintf_stderr (''Error: '' @ msg_proto_lparen @ [CHR 0x0A])
          (snd (getNextToken proto_no_lparen)))"
    by blast
  from h1 h2 h3 h4 c1 c2 c3 c4 show ?thesis by blast
qed

end
